theory Spec2Isabelle
  imports Complex_Main "HOL-Library.Multiset" "HOL-Library.AList"
begin

section \<open>Python exceptions\<close>

text \<open>
  Every \<open>raise\<close> of the sources, and every exception of a builtin operation they rely
  on (a missing dictionary key, an index out of range, a failed unpacking, a numpy shape
  mismatch), is a value of this type. A function that can raise returns
  \<open>error + 'a\<close>, with \<open>Inl\<close> for the exception.
\<close>

datatype error =
    KeyError
  | IndexError
  | ValueError
  | TypeError
  | IOError string
  | AggregationError

section \<open>calculators/classical.py\<close>

subsection \<open>The reducer's merge step: \<open>agg_dicts\<close>\<close>

text \<open>
  \<^verbatim>\<open>
  def agg_dicts(acc, val):
      for key in val:
          acc[key] = agg_curves(acc[key], val[key])
      return acc
  \<close>
  The accumulator \<open>acc\<close> is only subscripted, so it is a map; \<open>val\<close> is iterated, so it
  is an association list whose keys (distinct, as those of a Python dictionary) come in
  iteration order. Subscripting a dictionary with a key it does not hold raises
  \<open>KeyError\<close>. \<open>agg_curves\<close> is imported from hazardlib and is a parameter here.
  The accumulator is updated in place and returned; the model returns the new map.
\<close>

fun agg_dicts_loop ::
  "('v \<Rightarrow> 'v \<Rightarrow> 'v) \<Rightarrow> ('k \<rightharpoonup> 'v) \<Rightarrow> ('k \<times> 'v) list \<Rightarrow> 'k list \<Rightarrow> error + ('k \<rightharpoonup> 'v)"
where
  "agg_dicts_loop agg_curves acc val [] = Inr acc"
| "agg_dicts_loop agg_curves acc val (key # keys) =
     (case acc key of
        None \<Rightarrow> Inl KeyError
      | Some a \<Rightarrow>
          (case map_of val key of
             None \<Rightarrow> Inl KeyError
           | Some v \<Rightarrow> agg_dicts_loop agg_curves (acc(key \<mapsto> agg_curves a v)) val keys))"

definition agg_dicts ::
  "('v \<Rightarrow> 'v \<Rightarrow> 'v) \<Rightarrow> ('k \<rightharpoonup> 'v) \<Rightarrow> ('k \<times> 'v) list \<Rightarrow> error + ('k \<rightharpoonup> 'v)"
where
  "agg_dicts agg_curves acc val = agg_dicts_loop agg_curves acc val (map fst val)"

text \<open>
  Python's \<open>reduce(agg, results, acc)\<close>, which \<open>apply_reduce\<close> and
  \<open>starmap(...).reduce\<close> run over the partial results in arrival order; an exception of
  \<open>agg\<close> ends the fold.
\<close>

fun reduce :: "('a \<Rightarrow> 'b \<Rightarrow> error + 'a) \<Rightarrow> 'b list \<Rightarrow> 'a \<Rightarrow> error + 'a" where
  "reduce agg [] acc = Inr acc"
| "reduce agg (x # xs) acc =
     (case agg acc x of Inl e \<Rightarrow> Inl e | Inr acc' \<Rightarrow> reduce agg xs acc')"

subsection \<open>Effective tectonic region models\<close>


text \<open>
  An object of which only the attribute \<open>id\<close> is read: a tectonic region model here, an
  asset in scenario_risk.py (the field is named \<open>id'\<close>, \<open>id\<close> being the identity
  function of HOL).
\<close>

record 'i identified =
  id' :: 'i



subsection \<open>Tiles\<close>

text \<open>
  The result of one tile: the dictionary \<open>(trt_id, gsim) -> T curves\<close> that
  \<open>classical_tiling\<close> returns, with the attribute \<open>indices\<close> it sets on it. An array
  over the sites is a list with one entry per site.
\<close>

record ('k, 'c) tile_result =
  curves :: "('k \<times> 'c list) list"
  indices :: "nat list"



text \<open>
  numpy's assignment \<open>a[indices] = values\<close> along the first axis, for a list of
  non-negative indices. The values are first broadcast to the indices: there is one value
  per index, or a single value that goes to every index, and any other number of values
  raises \<open>ValueError\<close>. Then an index beyond the array raises \<open>IndexError\<close>. Otherwise
  the values are written position by position.
\<close>

definition setitem_indices :: "'c list \<Rightarrow> nat list \<Rightarrow> 'c list \<Rightarrow> error + 'c list" where
  "setitem_indices a idx vals =
     (if length vals \<noteq> length idx \<and> length vals \<noteq> 1 then Inl ValueError
      else if \<exists>i\<in>set idx. length a \<le> i then Inl IndexError
      else if length vals = length idx then Inr (fold (\<lambda>(i, v) b. b[i := v]) (zip idx vals) a)
      else Inr (fold (\<lambda>i b. b[i := hd vals]) idx a))"

text \<open>
  \<^verbatim>\<open>
  def agg_curves_by_trt_gsim(acc, curves_by_trt_gsim):
      for k in curves_by_trt_gsim:
          acc[k][curves_by_trt_gsim.indices] = curves_by_trt_gsim[k]
      return acc
  \<close>
  The arrays of \<open>acc\<close> are distinct objects (\<open>execute\<close> builds one \<open>zero_curves\<close> array
  per key), so writing into \<open>acc[k]\<close> changes the value of \<open>k\<close> only.
\<close>

fun agg_curves_by_trt_gsim_loop ::
  "('k \<rightharpoonup> 'c list) \<Rightarrow> ('k, 'c) tile_result \<Rightarrow> 'k list \<Rightarrow> error + ('k \<rightharpoonup> 'c list)"
where
  "agg_curves_by_trt_gsim_loop acc curves_by_trt_gsim [] = Inr acc"
| "agg_curves_by_trt_gsim_loop acc curves_by_trt_gsim (k # ks) =
     (case acc k of
        None \<Rightarrow> Inl KeyError
      | Some a \<Rightarrow>
          (case map_of (curves curves_by_trt_gsim) k of
             None \<Rightarrow> Inl KeyError
           | Some vals \<Rightarrow>
               (case setitem_indices a (indices curves_by_trt_gsim) vals of
                  Inl e \<Rightarrow> Inl e
                | Inr a' \<Rightarrow>
                    agg_curves_by_trt_gsim_loop (acc(k \<mapsto> a')) curves_by_trt_gsim ks)))"

definition agg_curves_by_trt_gsim ::
  "('k \<rightharpoonup> 'c list) \<Rightarrow> ('k, 'c) tile_result \<Rightarrow> error + ('k \<rightharpoonup> 'c list)"
where
  "agg_curves_by_trt_gsim acc curves_by_trt_gsim =
     agg_curves_by_trt_gsim_loop acc curves_by_trt_gsim (map fst (curves curves_by_trt_gsim))"

text \<open>
  \<open>ClassicalTilingCalculator.execute\<close>, the loop that builds the arguments of the tiles:
  \<^verbatim>\<open>
  self.tiles = split_in_blocks(self.sitecol, self.oqparam.concurrent_tasks or 1)
  ...
  all_args = []
  position = 0
  for (i, tile) in enumerate(self.tiles):
      all_args.append((calculator, SiteCollection(tile), position, i, monitor))
      position += len(tile)
  \<close>
  \<open>split_in_blocks\<close> (baselib/general.py) is a parameter. The calculator and the monitor
  are the same in every tuple and are left out: an argument tuple is
  \<open>(sitecol, position, tileno)\<close>, the site collection of a tile being the list of its
  sites.
\<close>

fun tile_args :: "nat \<Rightarrow> nat \<Rightarrow> 's list list \<Rightarrow> ('s list \<times> nat \<times> nat) list" where
  "tile_args position i [] = []"
| "tile_args position i (tile # tiles) =
     (tile, position, i) # tile_args (position + length tile) (Suc i) tiles"

definition all_args ::
  "('s list \<Rightarrow> nat \<Rightarrow> 's list list) \<Rightarrow> 's list \<Rightarrow> nat \<Rightarrow> ('s list \<times> nat \<times> nat) list"
where
  "all_args split_in_blocks sitecol' concurrent_tasks =
     tile_args 0 0
       (split_in_blocks sitecol' (if concurrent_tasks = 0 then 1 else concurrent_tasks))"

text \<open>
  The positions a tile's result is written to: the \<open>indices\<close> that \<open>classical_tiling\<close>
  gives the result of the tile with these arguments.
\<close>

definition tile_range :: "'s list \<times> nat \<times> nat \<Rightarrow> nat list" where
  "tile_range args = (case args of (sitecol', position, tileno') \<Rightarrow>
     [position ..< position + length sitecol'])"

subsection \<open>Statistics over the realizations: \<open>ClassicalCalculator.post_execute\<close>\<close>

text \<open>
  A realization of the logic tree; of its attributes \<open>ordinal\<close> and \<open>weight\<close> are read
  here. Floating-point numbers are modelled as exact reals.
\<close>

record realization =
  ordinal :: nat
  weight :: real

text \<open>
  A numpy structured array of hazard curves is kept by field: the data of the field
  \<open>imt\<close>, flattened to the list of its points.
\<close>

type_synonym 'imt curves_array = "'imt \<rightharpoonup> real list"

text \<open>The parameters of the job that \<open>post_execute\<close> and \<open>store_curves\<close> read.\<close>

record 'imt oqparam =
  imtls :: "('imt \<times> real list) list"
  individual_curves :: bool
  number_of_logic_tree_samples :: nat
  mean_hazard_curves :: bool
  quantile_hazard_curves :: "real list"
  hazard_maps :: bool
  uniform_hazard_spectra :: bool

text \<open>
  The names of the datasets: \<open>'rlz-%d' % rlz.ordinal\<close>, \<open>'mean'\<close> and
  \<open>'quantile-%s' % q\<close>; and what is stored under \<open>'hcurves/'\<close>, \<open>'hmaps/'\<close> and
  \<open>'uhs/'\<close>.
\<close>

datatype dset = Rlz nat | Mean | Quantile real

datatype ('c, 'm, 'u) dataset = HCurves 'c | HMaps 'm | UHS 'u

text \<open>
  The attributes of the calculator that \<open>post_execute\<close> writes, and the HDF5 file as the
  sequence of the datasets written to it.
\<close>

record ('imt, 'd, 'm, 'u) classical_state =
  persistent :: bool
  curves_by_trt_gsim :: "'d option"
  mean_curves :: "'imt curves_array option"
  quantile :: "(real \<times> 'imt curves_array) list option"
  hdf5 :: "(dset \<times> ('imt curves_array, 'm, 'u) dataset) list"

text \<open>
  \<^verbatim>\<open>
  def store_curves(self, dset, curves):
      if not self.persistent:  # do nothing
          return
      oq = self.oqparam
      h5 = self.datastore.hdf5
      h5['hcurves/' + dset] = curves
      if oq.hazard_maps or oq.uniform_hazard_spectra:
          hmaps = self.hazard_maps(curves)
          if oq.hazard_maps:
              h5['hmaps/' + dset] = hmaps
          if oq.uniform_hazard_spectra:
              self.datastore.hdf5['uhs/' + dset] = calc.make_uhs(hmaps)
  \<close>
  The method \<open>hazard_maps\<close>, which only reads, and \<open>calc.make_uhs\<close> are parameters.
\<close>

definition store_curves ::
  "('imt curves_array \<Rightarrow> 'm) \<Rightarrow> ('m \<Rightarrow> 'u) \<Rightarrow> 'imt oqparam \<Rightarrow> dset \<Rightarrow> 'imt curves_array
   \<Rightarrow> ('imt, 'd, 'm, 'u) classical_state \<Rightarrow> ('imt, 'd, 'm, 'u) classical_state"
where
  "store_curves hazard_maps_of make_uhs oq dset' curves' st =
     (if \<not> persistent st then st
      else
        let st1 = st\<lparr>hdf5 := hdf5 st @ [(dset', HCurves curves')]\<rparr> in
        if hazard_maps oq \<or> uniform_hazard_spectra oq then
          let hmaps = hazard_maps_of curves';
              st2 = (if hazard_maps oq
                     then st1\<lparr>hdf5 := hdf5 st1 @ [(dset', HMaps hmaps)]\<rparr> else st1)
          in if uniform_hazard_spectra oq
             then st2\<lparr>hdf5 := hdf5 st2 @ [(dset', UHS (make_uhs hmaps))]\<rparr> else st2
        else st1)"

text \<open>
  Modelled from the spec: \<open>scientific.mean_curve\<close> (risklib/scientific.py), the weighted
  mean of the realization aggregator, "\<open>mean[i] = \<Sigma>_r weight[r] * value[r][i] /
  \<Sigma>_r weight[r]\<close> (or unweighted arithmetic mean if the logic tree uses Monte-Carlo
  sampling with implicit equal weights --- \<open>weights = None\<close> signals this mode)". Weights
  that "do not sum to a usable distribution" are an \<open>AggregationError\<close>; so is the mean of
  no realization, or of as many weights as there are not values. Values of different
  sizes are a \<open>ValueError\<close>.
\<close>

definition mean_curve :: "real list list \<Rightarrow> real list option \<Rightarrow> error + real list" where
  "mean_curve values weights =
     (case values of
        [] \<Rightarrow> Inl AggregationError
      | v0 # _ \<Rightarrow>
          if \<exists>v\<in>set values. length v \<noteq> length v0 then Inl ValueError
          else
            (case weights of
               None \<Rightarrow>
                 Inr (map (\<lambda>i. (\<Sum>v\<leftarrow>values. v ! i) / real (length values))
                        [0 ..< length v0])
             | Some ws \<Rightarrow>
                 if length ws \<noteq> length values \<or> sum_list ws = 0 then Inl AggregationError
                 else Inr (map (\<lambda>i. (\<Sum>(w, v)\<leftarrow>zip ws values. w * v ! i) / sum_list ws)
                             [0 ..< length v0])))"

text \<open>
  \<open>[curves_by_rlz[rlz][imt] for rlz in rlzs]\<close>: a realization without curves raises
  \<open>KeyError\<close>, curves without the field \<open>imt\<close> raise \<open>ValueError\<close>.
\<close>

fun field_by_rlz ::
  "(realization \<times> 'imt curves_array) list \<Rightarrow> realization list \<Rightarrow> 'imt \<Rightarrow> error + real list list"
where
  "field_by_rlz curves_by_rlz [] imt = Inr []"
| "field_by_rlz curves_by_rlz (rlz # rlzs) imt =
     (case map_of curves_by_rlz rlz of
        None \<Rightarrow> Inl KeyError
      | Some c \<Rightarrow>
          (case c imt of
             None \<Rightarrow> Inl ValueError
           | Some a \<Rightarrow>
               (case field_by_rlz curves_by_rlz rlzs imt of
                  Inl e \<Rightarrow> Inl e
                | Inr as \<Rightarrow> Inr (a # as))))"

text \<open>
  The assignment \<open>array[imt] = value\<close> to a field of a structured array: the field must
  exist, and the array keeps its shape. A value of another size is taken to raise
  \<open>ValueError\<close> (the broadcasting of numpy is not modelled).
\<close>

definition setfield :: "'imt curves_array \<Rightarrow> 'imt \<Rightarrow> real list \<Rightarrow> error + 'imt curves_array" where
  "setfield array imt v =
     (case array imt of
        None \<Rightarrow> Inl ValueError
      | Some old \<Rightarrow> if length v = length old then Inr (array(imt \<mapsto> v)) else Inl ValueError)"

text \<open>
  \<^verbatim>\<open>
  for imt in oq.imtls:
      self.mean_curves[imt] = scientific.mean_curve(
          [curves_by_rlz[rlz][imt] for rlz in rlzs], weights)
  \<close>
  The array is updated in place: when an exception ends the loop, the fields already
  written stay. The loop returns the exception, if any, and the array.
\<close>

fun mean_loop ::
  "(realization \<times> 'imt curves_array) list \<Rightarrow> realization list \<Rightarrow> real list option
   \<Rightarrow> 'imt list \<Rightarrow> 'imt curves_array \<Rightarrow> error option \<times> 'imt curves_array"
where
  "mean_loop curves_by_rlz rlzs weights [] mc = (None, mc)"
| "mean_loop curves_by_rlz rlzs weights (imt # imts) mc =
     (case field_by_rlz curves_by_rlz rlzs imt of
        Inl e \<Rightarrow> (Some e, mc)
      | Inr values \<Rightarrow>
          (case mean_curve values weights of
             Inl e \<Rightarrow> (Some e, mc)
           | Inr m \<Rightarrow>
               (case setfield mc imt m of
                  Inl e \<Rightarrow> (Some e, mc)
                | Inr mc' \<Rightarrow> mean_loop curves_by_rlz rlzs weights imts mc')))"

text \<open>
  \<open>a.reshape((nsites, -1))\<close> on flattened data: the data stay, and the size must be a
  multiple of a non-zero \<open>nsites\<close>.
\<close>

definition reshape_rows :: "nat \<Rightarrow> real list \<Rightarrow> error + real list" where
  "reshape_rows nsites a =
     (if nsites \<noteq> 0 \<and> length a mod nsites = 0 then Inr a else Inl ValueError)"

text \<open>
  \<^verbatim>\<open>
  for imt in oq.imtls:
      curves = [curves_by_rlz[rlz][imt] for rlz in rlzs]
      qc[imt] = scientific.quantile_curve(
          curves, q, weights).reshape((nsites, -1))
  \<close>
  \<open>scientific.quantile_curve\<close> is a parameter.
\<close>

fun quantile_imt_loop ::
  "(real list list \<Rightarrow> real \<Rightarrow> real list option \<Rightarrow> error + real list)
   \<Rightarrow> (realization \<times> 'imt curves_array) list \<Rightarrow> realization list \<Rightarrow> real list option
   \<Rightarrow> nat \<Rightarrow> real \<Rightarrow> 'imt list \<Rightarrow> 'imt curves_array \<Rightarrow> error option \<times> 'imt curves_array"
where
  "quantile_imt_loop quantile_curve curves_by_rlz rlzs weights nsites q [] qc = (None, qc)"
| "quantile_imt_loop quantile_curve curves_by_rlz rlzs weights nsites q (imt # imts) qc =
     (case field_by_rlz curves_by_rlz rlzs imt of
        Inl e \<Rightarrow> (Some e, qc)
      | Inr curves' \<Rightarrow>
          (case quantile_curve curves' q weights of
             Inl e \<Rightarrow> (Some e, qc)
           | Inr a \<Rightarrow>
               (case reshape_rows nsites a of
                  Inl e \<Rightarrow> (Some e, qc)
                | Inr a' \<Rightarrow>
                    (case setfield qc imt a' of
                       Inl e \<Rightarrow> (Some e, qc)
                     | Inr qc' \<Rightarrow>
                         quantile_imt_loop quantile_curve curves_by_rlz rlzs weights
                           nsites q imts qc'))))"

text \<open>
  \<^verbatim>\<open>
  self.quantile = {}
  for q in oq.quantile_hazard_curves:
      self.quantile[q] = qc = numpy.array(zc)
      for imt in oq.imtls: ...
  \<close>
  The dictionary holds the array that the inner loop fills, also when that loop raises.
\<close>

fun quantile_loop ::
  "(real list list \<Rightarrow> real \<Rightarrow> real list option \<Rightarrow> error + real list)
   \<Rightarrow> (realization \<times> 'imt curves_array) list \<Rightarrow> realization list \<Rightarrow> real list option
   \<Rightarrow> nat \<Rightarrow> 'imt list \<Rightarrow> 'imt curves_array \<Rightarrow> real list
   \<Rightarrow> (real \<times> 'imt curves_array) list \<Rightarrow> error option \<times> (real \<times> 'imt curves_array) list"
where
  "quantile_loop quantile_curve curves_by_rlz rlzs weights nsites imts zc [] qd = (None, qd)"
| "quantile_loop quantile_curve curves_by_rlz rlzs weights nsites imts zc (q # qs) qd =
     (case quantile_imt_loop quantile_curve curves_by_rlz rlzs weights nsites q imts zc of
        (Some e, qc) \<Rightarrow> (Some e, AList.update q qc qd)
      | (None, qc) \<Rightarrow>
          quantile_loop quantile_curve curves_by_rlz rlzs weights nsites imts zc qs
            (AList.update q qc qd))"

text \<open>
  \<^verbatim>\<open>
  def post_execute(self, curves_by_trt_gsim):
      self.curves_by_trt_gsim = curves_by_trt_gsim
      oq = self.oqparam
      zc = zero_curves(len(self.sitecol.complete), oq.imtls)
      curves_by_rlz = self.rlzs_assoc.combine_curves(
          curves_by_trt_gsim, agg_curves, zc)
      rlzs = self.rlzs_assoc.realizations
      nsites = len(self.sitecol)
      if oq.individual_curves:
          for rlz, curves in curves_by_rlz.iteritems():
              self.store_curves('rlz-%d' % rlz.ordinal, curves)

      if len(rlzs) == 1:  # cannot compute statistics
          [self.mean_curves] = curves_by_rlz.values()
          return

      weights = (None if oq.number_of_logic_tree_samples
                 else [rlz.weight for rlz in rlzs])
      mean = oq.mean_hazard_curves
      if mean:
          self.mean_curves = numpy.array(zc)
          for imt in oq.imtls: ...
      self.quantile = {}
      for q in oq.quantile_hazard_curves: ...
      if mean:
          self.store_curves('mean', self.mean_curves)
      for q in self.quantile:
          self.store_curves('quantile-%s' % q, self.quantile[q])
  \<close>
  \<open>combine_curves\<close> (commonlib/source.py, applied to \<open>agg_curves\<close>), the array
  \<open>zc\<close> of zero curves, the realizations \<open>rlzs\<close> and \<open>nsites\<close> are parameters. The method
  returns nothing; the model returns the exception that ends it, if any, and the
  calculator as the call leaves it.
\<close>

definition post_execute ::
  "('d \<Rightarrow> 'imt curves_array \<Rightarrow> (realization \<times> 'imt curves_array) list)
   \<Rightarrow> ('imt curves_array \<Rightarrow> 'm) \<Rightarrow> ('m \<Rightarrow> 'u)
   \<Rightarrow> (real list list \<Rightarrow> real \<Rightarrow> real list option \<Rightarrow> error + real list)
   \<Rightarrow> 'imt oqparam \<Rightarrow> realization list \<Rightarrow> nat \<Rightarrow> 'imt curves_array \<Rightarrow> 'd
   \<Rightarrow> ('imt, 'd, 'm, 'u) classical_state \<Rightarrow> error option \<times> ('imt, 'd, 'm, 'u) classical_state"
where
  "post_execute combine_curves hazard_maps_of make_uhs quantile_curve oq rlzs nsites zc
      curves_by_trt_gsim' st0 =
     (let st1 = st0\<lparr>curves_by_trt_gsim := Some curves_by_trt_gsim'\<rparr>;
          curves_by_rlz = combine_curves curves_by_trt_gsim' zc;
          st2 = (if individual_curves oq
                 then fold (\<lambda>(rlz, curves').
                        store_curves hazard_maps_of make_uhs oq (Rlz (ordinal rlz)) curves')
                      curves_by_rlz st1
                 else st1)
      in
      if length rlzs = 1 then
        (case map snd curves_by_rlz of
           [c] \<Rightarrow> (None, st2\<lparr>mean_curves := Some c\<rparr>)
         | _ \<Rightarrow> (Some ValueError, st2))
      else
        let weights = (if number_of_logic_tree_samples oq \<noteq> 0 then None
                       else Some (map weight rlzs));
            mean = mean_hazard_curves oq;
            (e3, st3) =
              (if mean
               then (case mean_loop curves_by_rlz rlzs weights (map fst (imtls oq)) zc of
                       (e, mc) \<Rightarrow> (e, st2\<lparr>mean_curves := Some mc\<rparr>))
               else (None, st2))
        in
        case e3 of
          Some e \<Rightarrow> (Some e, st3)
        | None \<Rightarrow>
            (case quantile_loop quantile_curve curves_by_rlz rlzs weights nsites
                    (map fst (imtls oq)) zc (quantile_hazard_curves oq) [] of
               (Some e, qd) \<Rightarrow> (Some e, st3\<lparr>quantile := Some qd\<rparr>)
             | (None, qd) \<Rightarrow>
                 let st4 = st3\<lparr>quantile := Some qd\<rparr>;
                     st5 = (if mean
                            then (case mean_curves st4 of
                                    None \<Rightarrow> st4
                                  | Some mc \<Rightarrow>
                                      store_curves hazard_maps_of make_uhs oq Mean mc st4)
                            else st4)
                 in (None,
                     fold (\<lambda>(q, qc). store_curves hazard_maps_of make_uhs oq (Quantile q) qc)
                       qd st5)))"

section \<open>calculators/scenario_risk.py\<close>

text \<open>Python's \<open>zip\<close> of three sequences: it stops at the end of the shortest.\<close>

fun zip3 :: "'a list \<Rightarrow> 'b list \<Rightarrow> 'c list \<Rightarrow> ('a \<times> 'b \<times> 'c) list" where
  "zip3 (a # as) (b # bs) (c # cs) = (a, b, c) # zip3 as bs cs"
| "zip3 as bs cs = []"

text \<open>
  \<^verbatim>\<open>
  def lpa(assets, means, stddevs):
      """Losses per asset"""
      return [(a.id, m, s) for a, m, s in zip(assets, means, stddevs)]
  \<close>
\<close>

definition lpa :: "('i, 'x) identified_scheme list \<Rightarrow> 'm list \<Rightarrow> 's list \<Rightarrow> ('i \<times> 'm \<times> 's) list" where
  "lpa assets' means stddevs = map (\<lambda>(a, m, s). (id' a, m, s)) (zip3 assets' means stddevs)"

text \<open>
  An output of the risk model, with the attributes that \<open>scenario_risk\<close> reads. The loss
  matrices are numpy arrays with one row per asset.
\<close>

record ('i, 'lt, 'mat, 'l) risk_output =
  hid :: nat
  loss_type :: 'lt
  assets :: "'i identified list"
  loss_matrix :: 'mat
  insured_loss_matrix :: "'mat option"
  aggregate_losses :: 'l
  insured_losses :: 'l

text \<open>
  The values of the accumulator: a list of triples \<open>(asset id, means, stddev)\<close> under the
  keys \<open>'asset-loss'\<close> and \<open>'asset-ins'\<close>, an array of losses under \<open>'agg'\<close> and
  \<open>'ins'\<close>.
\<close>

datatype ('i, 'm, 's, 'l) losses = AssetLosses "('i \<times> 'm \<times> 's) list" | Losses 'l

text \<open>
  The sum \<open>v1 + v2\<close> of two values: lists are concatenated, arrays are added (\<open>add\<close>,
  the addition of numpy arrays, is a parameter); a list and an array are taken not to
  add up.
\<close>

fun losses_plus ::
  "('l \<Rightarrow> 'l \<Rightarrow> 'l) \<Rightarrow> ('i, 'm, 's, 'l) losses \<Rightarrow> ('i, 'm, 's, 'l) losses
   \<Rightarrow> error + ('i, 'm, 's, 'l) losses"
where
  "losses_plus add (AssetLosses xs) (AssetLosses ys) = Inr (AssetLosses (xs @ ys))"
| "losses_plus add (Losses a) (Losses b) = Inr (Losses (add a b))"
| "losses_plus add v1 v2 = Inl TypeError"

text \<open>
  Modelled from the spec: \<open>AccumDict.__iadd__\<close> (baselib/general.py), the merge of the
  accumulator: "merging two Accumulators merges values for keys present in both and unions
  keys present in only one". \<open>self += other\<close> goes through the items of \<open>other\<close>.
\<close>

fun iadd ::
  "('v \<Rightarrow> 'v \<Rightarrow> error + 'v) \<Rightarrow> ('k \<rightharpoonup> 'v) \<Rightarrow> ('k \<times> 'v) list \<Rightarrow> error + ('k \<rightharpoonup> 'v)"
where
  "iadd vplus self [] = Inr self"
| "iadd vplus self ((k, v) # other) =
     (case self k of
        None \<Rightarrow> iadd vplus (self(k \<mapsto> v)) other
      | Some old \<Rightarrow>
          (case vplus old v of
             Inl e \<Rightarrow> Inl e
           | Inr new \<Rightarrow> iadd vplus (self(k \<mapsto> new)) other))"

text \<open>
  The statement \<open>result[key] += other\<close>: \<open>result[key]\<close> raises \<open>KeyError\<close> when the key
  is missing.
\<close>

definition iadd_at ::
  "('v \<Rightarrow> 'v \<Rightarrow> error + 'v) \<Rightarrow> ('h \<rightharpoonup> ('k \<rightharpoonup> 'v)) \<Rightarrow> 'h \<Rightarrow> ('k \<times> 'v) list
   \<Rightarrow> error + ('h \<rightharpoonup> ('k \<rightharpoonup> 'v))"
where
  "iadd_at vplus result key other =
     (case result key of
        None \<Rightarrow> Inl KeyError
      | Some d \<Rightarrow>
          (case iadd vplus d other of
             Inl e \<Rightarrow> Inl e
           | Inr d' \<Rightarrow> Inr (result(key \<mapsto> d'))))"

text \<open>
  The body of the inner loop of \<open>scenario_risk\<close>:
  \<^verbatim>\<open>
  assets = out.assets
  means = out.loss_matrix.mean(axis=1),
  stddevs = out.loss_matrix.std(ddof=1, axis=1)
  result[out.hid] += {
      ('asset-loss', out.loss_type): lpa(assets, means, stddevs)}
  result[out.hid] += {('agg', out.loss_type): out.aggregate_losses}
  if out.insured_loss_matrix is not None:
      means = out.insured_loss_matrix.mean(axis=1),
      stddevs = out.insured_loss_matrix.std(ddof=1, axis=1)
      result[out.hid] += {
          ('asset-ins', out.loss_type): lpa(assets, means, stddevs)}
      result[out.hid] += {('ins', out.loss_type): out.insured_losses}
  \<close>
  \<open>mean1\<close> is \<open>.mean(axis=1)\<close>, the array of the means of the rows, and \<open>std1\<close> is
  \<open>.std(ddof=1, axis=1)\<close>, the standard deviations of the rows as a sequence; both are
  parameters. The comma after \<open>mean(axis=1)\<close> makes \<open>means\<close> a tuple of one element,
  the array.
\<close>

definition add_output ::
  "('mat \<Rightarrow> 'm) \<Rightarrow> ('mat \<Rightarrow> 's list) \<Rightarrow> ('l \<Rightarrow> 'l \<Rightarrow> 'l)
   \<Rightarrow> (nat \<rightharpoonup> (string \<times> 'lt \<rightharpoonup> ('i, 'm, 's, 'l) losses))
   \<Rightarrow> ('i, 'lt, 'mat, 'l) risk_output
   \<Rightarrow> error + (nat \<rightharpoonup> (string \<times> 'lt \<rightharpoonup> ('i, 'm, 's, 'l) losses))"
where
  "add_output mean1 std1 add result out =
     (let means = [mean1 (loss_matrix out)];
          stddevs = std1 (loss_matrix out)
      in
      case iadd_at (losses_plus add) result (hid out)
             [((''asset-loss'', loss_type out), AssetLosses (lpa (assets out) means stddevs))] of
        Inl e \<Rightarrow> Inl e
      | Inr result1 \<Rightarrow>
          (case iadd_at (losses_plus add) result1 (hid out)
                  [((''agg'', loss_type out), Losses (aggregate_losses out))] of
             Inl e \<Rightarrow> Inl e
           | Inr result2 \<Rightarrow>
               (case insured_loss_matrix out of
                  None \<Rightarrow> Inr result2
                | Some ilm \<Rightarrow>
                    let means = [mean1 ilm];
                        stddevs = std1 ilm
                    in
                    (case iadd_at (losses_plus add) result2 (hid out)
                            [((''asset-ins'', loss_type out),
                              AssetLosses (lpa (assets out) means stddevs))] of
                       Inl e \<Rightarrow> Inl e
                     | Inr result3 \<Rightarrow>
                         iadd_at (losses_plus add) result3 (hid out)
                           [((''ins'', loss_type out), Losses (insured_losses out))]))))"

text \<open>
  \<^verbatim>\<open>
  def scenario_risk(riskinputs, riskmodel, rlzs_assoc, monitor):
      result = general.AccumDict({rlz.ordinal: general.AccumDict()
                                  for rlz in rlzs_assoc.realizations})
      for out_by_rlz in riskmodel.gen_outputs(riskinputs, rlzs_assoc, monitor):
          for out in out_by_rlz:
              ...
      return result
  \<close>
  \<open>gen_outputs\<close> is what \<open>riskmodel.gen_outputs\<close> yields: the lists of outputs, in order.
\<close>

definition scenario_risk ::
  "('mat \<Rightarrow> 'm) \<Rightarrow> ('mat \<Rightarrow> 's list) \<Rightarrow> ('l \<Rightarrow> 'l \<Rightarrow> 'l)
   \<Rightarrow> ('i, 'lt, 'mat, 'l) risk_output list list \<Rightarrow> realization list
   \<Rightarrow> error + (nat \<rightharpoonup> (string \<times> 'lt \<rightharpoonup> ('i, 'm, 's, 'l) losses))"
where
  "scenario_risk mean1 std1 add gen_outputs realizations =
     reduce (\<lambda>result out_by_rlz. reduce (add_output mean1 std1 add) out_by_rlz result)
       gen_outputs
       (map_of (map (\<lambda>rlz. (ordinal rlz, Map.empty)) realizations))"

section \<open>readinput.py\<close>

subsection \<open>File system\<close>

text \<open>
  A directory tree: a file, or a directory with its entries as \<open>os.listdir\<close> returns
  them, by name.
\<close>

datatype fs = File | Dir "(string \<times> fs) list"

text \<open>\<open>os.path.join(a, b)\<close> of posixpath.\<close>

definition path_join :: "string \<Rightarrow> string \<Rightarrow> string" where
  "path_join a b =
     (if b \<noteq> [] \<and> hd b = CHR ''/'' then b
      else if a = [] \<or> last a = CHR ''/'' then a @ b
      else a @ ''/'' @ b)"

text \<open>\<open>os.path.basename(p)\<close> of posixpath: what follows the last slash.\<close>

definition basename :: "string \<Rightarrow> string" where
  "basename p = rev (takeWhile (\<lambda>c. c \<noteq> CHR ''/'') (rev p))"

text \<open>\<open>s.endswith(suffix)\<close>.\<close>

definition endswith :: "string \<Rightarrow> string \<Rightarrow> bool" where
  "endswith s suffix' =
     (length suffix' \<le> length s \<and> drop (length s - length suffix') s = suffix')"

subsection \<open>\<open>collect_files\<close>\<close>

text \<open>
  \<^verbatim>\<open>
  def collect_files(dirpath, cond=lambda fullname: True):
      files = []
      for fname in os.listdir(dirpath):
          fullname = os.path.join(dirpath, fname)
          if os.path.isdir(fullname):  # navigate inside
              files.extend(collect_files(fullname))
          else:  # collect files
              if cond(fullname):
                  files.append(fullname)
      return files
  \<close>
  The function takes the entries of the directory \<open>dirpath\<close>. The recursive call passes
  no \<open>cond\<close>, so the default of the parameter applies there.
\<close>

fun collect_files :: "(string \<Rightarrow> bool) \<Rightarrow> string \<Rightarrow> (string \<times> fs) list \<Rightarrow> string list" where
  "collect_files cond dirpath [] = []"
| "collect_files cond dirpath ((fname, File) # entries) =
     (let fullname = path_join dirpath fname in
      (if cond fullname then [fullname] else []) @ collect_files cond dirpath entries)"
| "collect_files cond dirpath ((fname, Dir sub) # entries) =
     (let fullname = path_join dirpath fname in
      collect_files (\<lambda>fullname. True) fullname sub @ collect_files cond dirpath entries)"

subsection \<open>\<open>get_params\<close>\<close>

text \<open>
  \<^verbatim>\<open>
  def extract_from_zip(path, candidates):
      temp_dir = tempfile.mkdtemp()
      with zipfile.ZipFile(path) as archive:
          archive.extractall(temp_dir)
      return [f for f in collect_files(temp_dir)
              if os.path.basename(f) in candidates]
  \<close>
  \<open>unzip path\<close> is what the archive holds, or the exception of opening it;
  \<open>temp_dir\<close> is the directory that \<open>mkdtemp\<close> returns.
\<close>

definition extract_from_zip ::
  "(string \<Rightarrow> error + (string \<times> fs) list) \<Rightarrow> string \<Rightarrow> string \<Rightarrow> string list
   \<Rightarrow> error + string list"
where
  "extract_from_zip unzip temp_dir path candidates =
     (case unzip path of
        Inl e \<Rightarrow> Inl e
      | Inr entries \<Rightarrow>
          Inr (filter (\<lambda>f. basename f \<in> set candidates)
                 (collect_files (\<lambda>fullname. True) temp_dir entries)))"

text \<open>
  \<^verbatim>\<open>
  def get_params(job_inis):
      if len(job_inis) == 1 and job_inis[0].endswith('.zip'):
          job_inis = extract_from_zip(
              job_inis[0], ['job_hazard.ini', 'job_haz.ini',
                            'job.ini', 'job_risk.ini'])

      not_found = [ini for ini in job_inis if not os.path.exists(ini)]
      if len(not_found) == len(job_inis):  # nothing was found
          raise IOError('File not found: %s' % not_found[0])

      cp = ConfigParser.ConfigParser()
      cp.read(job_inis)
      ...
      return params
  \<close>
  \<open>exists\<close> is \<open>os.path.exists\<close> on the file system before the call; the files that
  \<open>extract_from_zip\<close> has written exist after it. \<open>parse\<close> is the rest of the function,
  from \<open>cp.read(job_inis)\<close> on, which receives the whole list \<open>job_inis\<close>.
  \<open>not_found[0]\<close> raises \<open>IndexError\<close> on an empty list.
\<close>

definition get_params ::
  "(string \<Rightarrow> bool) \<Rightarrow> (string \<Rightarrow> error + (string \<times> fs) list) \<Rightarrow> string
   \<Rightarrow> (string list \<Rightarrow> error + 'p) \<Rightarrow> string list \<Rightarrow> error + 'p"
where
  "get_params exists unzip temp_dir parse job_inis =
     (case (if length job_inis = 1 \<and> endswith (job_inis ! 0) ''.zip''
            then (case extract_from_zip unzip temp_dir (job_inis ! 0)
                         [''job_hazard.ini'', ''job_haz.ini'', ''job.ini'', ''job_risk.ini''] of
                    Inl e \<Rightarrow> Inl e
                  | Inr extracted \<Rightarrow> Inr (extracted, \<lambda>p. exists p \<or> p \<in> set extracted))
            else Inr (job_inis, exists)) of
        Inl e \<Rightarrow> Inl e
      | Inr (job_inis', exists') \<Rightarrow>
          let not_found = filter (\<lambda>ini. \<not> exists' ini) job_inis' in
          if length not_found = length job_inis' then
            (case not_found of
               [] \<Rightarrow> Inl IndexError
             | missing # _ \<Rightarrow> Inl (IOError (''File not found: '' @ missing)))
          else parse job_inis')"

section \<open>Auxiliary notions of the proofs\<close>

text \<open>The accumulator that a successful \<open>agg_dicts\<close> returns, in closed form.\<close>

definition merged :: "('v \<Rightarrow> 'v \<Rightarrow> 'v) \<Rightarrow> ('k \<times> 'v) list \<Rightarrow> ('k \<rightharpoonup> 'v) \<Rightarrow> ('k \<rightharpoonup> 'v)" where
  "merged agg_curves val acc =
     (\<lambda>k. case map_of val k of None \<Rightarrow> acc k | Some v \<Rightarrow> map_option (\<lambda>a. agg_curves a v) (acc k))"

text \<open>
  The mean over the realizations at the point \<open>i\<close>: the arithmetic mean when the logic
  tree is sampled, the mean weighted by the realizations' weights otherwise.
\<close>

definition expected_mean :: "bool \<Rightarrow> realization list \<Rightarrow> (realization \<Rightarrow> real list) \<Rightarrow> nat \<Rightarrow> real" where
  "expected_mean sampling rlzs val i =
     (if sampling then (\<Sum>r\<leftarrow>rlzs. val r ! i) / real (length rlzs)
      else (\<Sum>r\<leftarrow>rlzs. weight r * val r ! i) / (\<Sum>r\<leftarrow>rlzs. weight r))"

text \<open>
  The files of a directory tree: those directly in the directory, every file at any
  depth, and every file inside a subdirectory of the directory.
\<close>

fun direct_files :: "string \<Rightarrow> (string \<times> fs) list \<Rightarrow> string list" where
  "direct_files dirpath [] = []"
| "direct_files dirpath ((fname, File) # entries) =
     path_join dirpath fname # direct_files dirpath entries"
| "direct_files dirpath ((fname, Dir sub) # entries) = direct_files dirpath entries"

fun all_files :: "string \<Rightarrow> (string \<times> fs) list \<Rightarrow> string list" where
  "all_files dirpath [] = []"
| "all_files dirpath ((fname, File) # entries) =
     path_join dirpath fname # all_files dirpath entries"
| "all_files dirpath ((fname, Dir sub) # entries) =
     all_files (path_join dirpath fname) sub @ all_files dirpath entries"

fun subdir_files :: "string \<Rightarrow> (string \<times> fs) list \<Rightarrow> string list" where
  "subdir_files dirpath [] = []"
| "subdir_files dirpath ((fname, File) # entries) = subdir_files dirpath entries"
| "subdir_files dirpath ((fname, Dir sub) # entries) =
     all_files (path_join dirpath fname) sub @ subdir_files dirpath entries"

text \<open>
  What the accumulator of \<open>scenario_risk\<close> holds for the realization \<open>h\<close> under the key
  \<open>k\<close>.
\<close>

definition stored :: "('h \<rightharpoonup> ('k \<rightharpoonup> 'v)) \<Rightarrow> 'h \<Rightarrow> 'k \<Rightarrow> 'v option" where
  "stored result h k = (case result h of None \<Rightarrow> None | Some d \<Rightarrow> d k)"

text \<open>The keys that hold lists of triples, and the dictionaries that respect this.\<close>

definition asset_key :: "string \<times> 'lt \<Rightarrow> bool" where
  "asset_key k = (fst k = ''asset-loss'' \<or> fst k = ''asset-ins'')"

fun triples :: "('i, 'm, 's, 'l) losses option \<Rightarrow> ('i \<times> 'm \<times> 's) list" where
  "triples (Some (AssetLosses ts)) = ts"
| "triples v = []"

definition well_typed :: "(string \<times> 'lt \<rightharpoonup> ('i, 'm, 's, 'l) losses) \<Rightarrow> bool" where
  "well_typed d = (\<forall>k v. d k = Some v \<longrightarrow>
     (case v of AssetLosses ts \<Rightarrow> asset_key k | Losses a \<Rightarrow> \<not> asset_key k))"

text \<open>The triples that one output adds under a key, if it writes the key at all.\<close>

definition contrib ::
  "('mat \<Rightarrow> 'm) \<Rightarrow> ('mat \<Rightarrow> 's list) \<Rightarrow> ('i, 'lt, 'mat, 'l) risk_output \<Rightarrow> string \<times> 'lt
   \<Rightarrow> ('i \<times> 'm \<times> 's) list option"
where
  "contrib mean1 std1 out k =
     (if k = (''asset-loss'', loss_type out)
      then Some (lpa (assets out) [mean1 (loss_matrix out)] (std1 (loss_matrix out)))
      else if k = (''asset-ins'', loss_type out)
      then (case insured_loss_matrix out of
              None \<Rightarrow> None
            | Some ilm \<Rightarrow> Some (lpa (assets out) [mean1 ilm] (std1 ilm)))
      else None)"

definition contribs ::
  "('mat \<Rightarrow> 'm) \<Rightarrow> ('mat \<Rightarrow> 's list) \<Rightarrow> ('i, 'lt, 'mat, 'l) risk_output list \<Rightarrow> nat
   \<Rightarrow> string \<times> 'lt \<Rightarrow> ('i \<times> 'm \<times> 's) list list"
where
  "contribs mean1 std1 outs h k =
     List.map_filter (\<lambda>out. if hid out = h then contrib mean1 std1 out k else None) outs"

definition expected ::
  "('mat \<Rightarrow> 'm) \<Rightarrow> ('mat \<Rightarrow> 's list) \<Rightarrow> ('i, 'lt, 'mat, 'l) risk_output list \<Rightarrow> nat
   \<Rightarrow> string \<times> 'lt \<Rightarrow> ('i, 'm, 's, 'l) losses option"
where
  "expected mean1 std1 outs h k =
     (if contribs mean1 std1 outs h k = [] then None
      else Some (AssetLosses (concat (contribs mean1 std1 outs h k))))"

text \<open>
  The accumulator after the outputs \<open>seen\<close>: every dictionary respects the types of the
  keys and holds, under the keys of triples, what these outputs have added.
\<close>

definition accumulated ::
  "('mat \<Rightarrow> 'm) \<Rightarrow> ('mat \<Rightarrow> 's list)
   \<Rightarrow> (nat \<rightharpoonup> (string \<times> 'lt \<rightharpoonup> ('i, 'm, 's, 'l) losses))
   \<Rightarrow> ('i, 'lt, 'mat, 'l) risk_output list \<Rightarrow> bool"
where
  "accumulated mean1 std1 result seen =
     (\<forall>h d. result h = Some d \<longrightarrow>
        well_typed d \<and> (\<forall>k. asset_key k \<longrightarrow> d k = expected mean1 std1 seen h k))"

section \<open>The merge step and the reduction\<close>

lemma agg_dicts_loop_ok:
  "distinct keys \<Longrightarrow> set keys \<subseteq> dom acc \<Longrightarrow> set keys \<subseteq> fst ` set val \<Longrightarrow>
   agg_dicts_loop ac acc val keys =
     Inr (\<lambda>k. if k \<in> set keys then map_option (\<lambda>a. ac a (the (map_of val k))) (acc k) else acc k)"
proof (induction keys arbitrary: acc)
  case Nil
  then show ?case by simp
next
  case (Cons key keys)
  from Cons.prems obtain a where a: "acc key = Some a" by auto
  from Cons.prems obtain v where v: "map_of val key = Some v"
    by (metis list.set_intros(1) subsetD map_of_eq_None_iff not_Some_eq)
  let ?acc = "acc(key \<mapsto> ac a v)"
  have "agg_dicts_loop ac ?acc val keys =
     Inr (\<lambda>k. if k \<in> set keys then map_option (\<lambda>a. ac a (the (map_of val k))) (?acc k) else ?acc k)"
    using Cons.prems by (intro Cons.IH) auto
  then show ?case using a v Cons.prems by (auto intro!: ext)
qed

lemma agg_dicts_ok:
  assumes "distinct (map fst val)" and "fst ` set val \<subseteq> dom acc"
  shows "agg_dicts ac acc val = Inr (merged ac val acc)"
proof -
  have "agg_dicts ac acc val =
     Inr (\<lambda>k. if k \<in> set (map fst val) then map_option (\<lambda>a. ac a (the (map_of val k))) (acc k) else acc k)"
    unfolding agg_dicts_def using assms by (intro agg_dicts_loop_ok) auto
  also have "(\<lambda>k. if k \<in> set (map fst val) then map_option (\<lambda>a. ac a (the (map_of val k))) (acc k) else acc k)
     = merged ac val acc"
  proof (rule ext)
    fix k
    show "(if k \<in> set (map fst val) then map_option (\<lambda>a. ac a (the (map_of val k))) (acc k) else acc k)
      = merged ac val acc k"
    proof (cases "map_of val k")
      case None
      then have "k \<notin> fst ` set val" by (simp add: map_of_eq_None_iff)
      with None show ?thesis by (simp add: merged_def)
    next
      case (Some v)
      then have "k \<in> fst ` set val" by (metis map_of_eq_None_iff option.distinct(1))
      with Some show ?thesis by (simp add: merged_def)
    qed
  qed
  finally show ?thesis .
qed

lemma agg_dicts_loop_KeyError:
  "\<not> set keys \<subseteq> dom acc \<Longrightarrow> agg_dicts_loop ac acc val keys = Inl KeyError"
proof (induction keys arbitrary: acc)
  case Nil
  then show ?case by simp
next
  case (Cons key keys)
  show ?case
  proof (cases "acc key")
    case None
    then show ?thesis by simp
  next
    case (Some a)
    show ?thesis
    proof (cases "map_of val key")
      case None
      with Some show ?thesis by simp
    next
      case v: (Some v)
      have "\<not> set keys \<subseteq> dom (acc(key \<mapsto> ac a v))"
        using Cons.prems Some by auto
      then have "agg_dicts_loop ac (acc(key \<mapsto> ac a v)) val keys = Inl KeyError"
        by (rule Cons.IH)
      with Some v show ?thesis by simp
    qed
  qed
qed

lemma dom_merged: "dom (merged ac val acc) = dom acc"
  by (auto simp: merged_def dom_def split: option.splits)


lemma merged_commute:
  assumes comm: "\<And>a b. ac a b = ac b a"
    and assoc: "\<And>a b c. ac (ac a b) c = ac a (ac b c)"
  shows "merged ac x (merged ac y acc) = merged ac y (merged ac x acc)"
proof (rule ext)
  fix k
  have swap: "ac (ac a vy) vx = ac (ac a vx) vy" for a vx vy
  proof -
    have "ac (ac a vy) vx = ac a (ac vy vx)" by (rule assoc)
    also have "\<dots> = ac a (ac vx vy)" by (simp add: comm [of vy vx])
    also have "\<dots> = ac (ac a vx) vy" by (rule assoc [symmetric])
    finally show ?thesis .
  qed
  show "merged ac x (merged ac y acc) k = merged ac y (merged ac x acc) k"
    by (cases "map_of x k"; cases "map_of y k"; cases "acc k") (simp_all add: merged_def swap)
qed

lemma reduce_agg_dicts_fold:
  "\<forall>val\<in>set ps. distinct (map fst val) \<and> fst ` set val \<subseteq> dom acc \<Longrightarrow>
   reduce (agg_dicts ac) ps acc = Inr (fold (merged ac) ps acc)"
proof (induction ps arbitrary: acc)
  case Nil
  then show ?case by simp
next
  case (Cons val ps)
  then have step: "agg_dicts ac acc val = Inr (merged ac val acc)"
    by (simp add: agg_dicts_ok)
  have "\<forall>v\<in>set ps. distinct (map fst v) \<and> fst ` set v \<subseteq> dom (merged ac val acc)"
    using Cons.prems by (simp add: dom_merged)
  then have "reduce (agg_dicts ac) ps (merged ac val acc) = Inr (fold (merged ac) ps (merged ac val acc))"
    by (rule Cons.IH)
  with step show ?case by simp
qed

text \<open>
  C1 (amended). The accumulator is a plain mapping: \<open>acc[key]\<close> raises \<open>KeyError\<close> for a
  key that \<open>acc\<close> does not hold. For every accumulator \<open>acc\<close> and every partial result
  \<open>val\<close> whose keys are all present in \<open>acc\<close>, \<open>agg_dicts\<close> returns an accumulator
  whose key set is the union of the two key sets (which is the key set of \<open>acc\<close>), holding
  \<open>agg_curves\<close> of the two values for every key present in both and the value of \<open>acc\<close>
  unchanged for every key of \<open>acc\<close> alone; when some key of \<open>val\<close> is absent from
  \<open>acc\<close> the merge does not succeed: it raises \<open>KeyError\<close>.
\<close>

theorem agg_dicts_merges_present_keys:
  assumes "distinct (map fst val)"
  shows "(fst ` set val \<subseteq> dom acc \<longrightarrow>
            (\<exists>acc'. agg_dicts agg_curves acc val = Inr acc'
               \<and> dom acc' = dom acc \<union> fst ` set val
               \<and> (\<forall>k a v. acc k = Some a \<and> map_of val k = Some v \<longrightarrow> acc' k = Some (agg_curves a v))
               \<and> (\<forall>k. k \<notin> fst ` set val \<longrightarrow> acc' k = acc k)))
       \<and> (\<not> fst ` set val \<subseteq> dom acc \<longrightarrow> agg_dicts agg_curves acc val = Inl KeyError)"
proof (intro conjI impI)
  assume sub: "fst ` set val \<subseteq> dom acc"
  have ok: "agg_dicts agg_curves acc val = Inr (merged agg_curves val acc)"
    using assms sub by (rule agg_dicts_ok)
  have d: "dom (merged agg_curves val acc) = dom acc \<union> fst ` set val"
    using sub by (auto simp: dom_merged)
  have both: "\<forall>k a v. acc k = Some a \<and> map_of val k = Some v \<longrightarrow>
      merged agg_curves val acc k = Some (agg_curves a v)"
    by (simp add: merged_def)
  have only: "\<forall>k. k \<notin> fst ` set val \<longrightarrow> merged agg_curves val acc k = acc k"
    by (simp add: merged_def map_of_eq_None_iff [symmetric])
  from ok d both only
  show "\<exists>acc'. agg_dicts agg_curves acc val = Inr acc'
               \<and> dom acc' = dom acc \<union> fst ` set val
               \<and> (\<forall>k a v. acc k = Some a \<and> map_of val k = Some v \<longrightarrow> acc' k = Some (agg_curves a v))
               \<and> (\<forall>k. k \<notin> fst ` set val \<longrightarrow> acc' k = acc k)"
    by blast
next
  assume "\<not> fst ` set val \<subseteq> dom acc"
  then have "\<not> set (map fst val) \<subseteq> dom acc" by simp
  then show "agg_dicts agg_curves acc val = Inl KeyError"
    unfolding agg_dicts_def by (rule agg_dicts_loop_KeyError)
qed

theorem agg_dicts_merges_present_keys_witness:
  "distinct (map fst [(1::nat, 5::int)])
   \<and> fst ` set [(1::nat, 5::int)] \<subseteq> dom [1 \<mapsto> 10, 2 \<mapsto> 20]
   \<and> (\<exists>acc'. agg_dicts (+) [1 \<mapsto> 10, 2 \<mapsto> 20] [(1::nat, 5::int)] = Inr acc'
         \<and> acc' 1 = Some 15 \<and> acc' 2 = Some 20 \<and> acc' 3 = None)
   \<and> agg_dicts (+) [1 \<mapsto> 10, 2 \<mapsto> 20] [(3::nat, 5::int)] = Inl KeyError"
  using agg_dicts_merges_present_keys [of "[(1::nat, 5::int)]" "[1 \<mapsto> 10, 2 \<mapsto> 20]" "(+)"]
    agg_dicts_merges_present_keys [of "[(3::nat, 5::int)]" "[1 \<mapsto> 10, 2 \<mapsto> 20]" "(+)"]
  by (simp add: agg_dicts_def)

theorem agg_dicts_missing_key_counterexample:
  "agg_dicts (+) (Map.empty :: nat \<rightharpoonup> int) [(1, 5)] = Inl KeyError"
  by (simp add: agg_dicts_def)

text \<open>
  C2. When the per-key merge \<open>agg_curves\<close> is commutative and associative, folding a list
  of partial accumulators whose keys all lie in the key domain of the initial accumulator
  succeeds, and every permutation of the list yields the same final accumulator.
\<close>

theorem reduce_agg_dicts_order_independent:
  assumes comm: "\<And>a b. agg_curves a b = agg_curves b a"
    and assoc: "\<And>a b c. agg_curves (agg_curves a b) c = agg_curves a (agg_curves b c)"
    and keys: "\<forall>val\<in>set partials. distinct (map fst val) \<and> fst ` set val \<subseteq> dom initial"
    and perm: "mset partials' = mset partials"
  shows "\<exists>final. reduce (agg_dicts agg_curves) partials initial = Inr final
              \<and> reduce (agg_dicts agg_curves) partials' initial = Inr final"
proof -
  have set_eq: "set partials' = set partials"
    using perm by (rule mset_eq_setD)
  have r: "reduce (agg_dicts agg_curves) partials initial = Inr (fold (merged agg_curves) partials initial)"
    using keys by (rule reduce_agg_dicts_fold)
  have r': "reduce (agg_dicts agg_curves) partials' initial = Inr (fold (merged agg_curves) partials' initial)"
    using keys set_eq by (intro reduce_agg_dicts_fold) simp
  have "merged agg_curves x \<circ> merged agg_curves y = merged agg_curves y \<circ> merged agg_curves x" for x y
    by (rule ext) (simp add: merged_commute [OF comm assoc])
  then have "fold (merged agg_curves) partials' = fold (merged agg_curves) partials"
    using perm by (intro fold_multiset_equiv) simp_all
  with r r' show ?thesis by simp
qed

theorem reduce_agg_dicts_order_independent_witness:
  "mset [[(1::nat, 1/4), (2, 1/2)], [(1, 1/2::real)]] = mset [[(1, 1/2)], [(1, 1/4), (2, 1/2)]]
   \<and> (\<exists>final. reduce (agg_dicts (\<lambda>a c. 1 - (1 - c) * (1 - a))) [[(1::nat, 1/2)], [(1, 1/4), (2, 1/2)]] [1 \<mapsto> 0, 2 \<mapsto> (0::real)] = Inr final
         \<and> reduce (agg_dicts (\<lambda>a c. 1 - (1 - c) * (1 - a))) [[(1::nat, 1/4), (2, 1/2)], [(1, 1/2)]] [1 \<mapsto> 0, 2 \<mapsto> (0::real)] = Inr final
         \<and> final 1 = Some (5/8) \<and> final 2 = Some (1/2))"
proof -
  let ?ac = "\<lambda>a c::real. 1 - (1 - c) * (1 - a)"
  let ?ps = "[[(1::nat, 1/2)], [(1, 1/4), (2, 1/2::real)]]"
  let ?ps' = "[[(1::nat, 1/4), (2, 1/2)], [(1, 1/2::real)]]"
  let ?init = "[1 \<mapsto> 0, 2 \<mapsto> (0::real)] :: nat \<rightharpoonup> real"
  have comm: "?ac a b = ?ac b a" for a b by (simp add: algebra_simps)
  have assoc: "?ac (?ac a b) c = ?ac a (?ac b c)" for a b c by (simp add: algebra_simps)
  have keys: "\<forall>val\<in>set ?ps. distinct (map fst val) \<and> fst ` set val \<subseteq> dom ?init" by simp
  have perm: "mset ?ps' = mset ?ps" by (simp add: add.commute)
  from reduce_agg_dicts_order_independent [of ?ac ?ps ?init ?ps', OF comm assoc keys perm]
  obtain final where f: "reduce (agg_dicts ?ac) ?ps ?init = Inr final"
    and f': "reduce (agg_dicts ?ac) ?ps' ?init = Inr final" by blast
  from f have "final 1 = Some (5/8) \<and> final 2 = Some (1/2)"
    by (auto simp: agg_dicts_def)
  with f f' perm show ?thesis by simp
qed

section \<open>Tiling coverage\<close>

lemma concat_tile_range:
  "concat (map tile_range (tile_args position i tiles)) =
     [position ..< position + length (concat tiles)]"
proof (induction tiles arbitrary: position i)
  case Nil
  then show ?case by simp
next
  case (Cons tile tiles)
  have "[position ..< position + length tile + length (concat tiles)] =
      [position ..< position + length tile]
        @ [position + length tile ..< position + length tile + length (concat tiles)]"
    by (rule upt_add_eq_append) simp
  with Cons.IH [of "position + length tile" "Suc i"] show ?case
    by (simp add: tile_range_def add.assoc)
qed

lemma length_tile_args: "length (tile_args position i tiles) = length tiles"
  by (induction tiles arbitrary: position i) simp_all

lemma distinct_concat_unique_index:
  "distinct (concat xss) \<Longrightarrow> j < length xss \<Longrightarrow> j' < length xss \<Longrightarrow>
   p \<in> set (xss ! j) \<Longrightarrow> p \<in> set (xss ! j') \<Longrightarrow> j = j'"
proof (induction xss arbitrary: j j')
  case Nil
  then show ?case by simp
next
  case (Cons xs xss)
  have disj: "set xs \<inter> set (concat xss) = {}" and d: "distinct (concat xss)"
    using Cons.prems(1) by auto
  have later: "p \<in> set (concat xss)" if "n < length xss" "p \<in> set (xss ! n)" for n
    using that by (auto intro: nth_mem)
  show ?case
  proof (cases j)
    case 0
    show ?thesis
    proof (cases j')
      case 0
      with \<open>j = 0\<close> show ?thesis by simp
    next
      case (Suc n')
      with Cons.prems have "p \<in> set (concat xss)" by (intro later [of n']) simp_all
      moreover from 0 Cons.prems have "p \<in> set xs" by simp
      ultimately show ?thesis using disj by blast
    qed
  next
    case (Suc n)
    show ?thesis
    proof (cases j')
      case 0
      from Suc Cons.prems have "p \<in> set (concat xss)" by (intro later [of n]) simp_all
      moreover from 0 Cons.prems have "p \<in> set xs" by simp
      ultimately show ?thesis using disj by blast
    next
      case j': (Suc n')
      from Suc j' Cons.prems have "n = n'"
        by (intro Cons.IH [OF d]) simp_all
      with Suc j' show ?thesis by simp
    qed
  qed
qed

text \<open>
  C3. For every site collection and every concurrency hint for which the splitter returns
  tiles holding every site exactly once, the ranges \<open>[position, position + len(tile))\<close> of
  the tiles built by \<open>ClassicalTilingCalculator.execute\<close> partition
  \<open>[0, number of sites)\<close>: laid end to end in tile order they are \<open>0, 1, ..., N - 1\<close>, so
  every site position lies in the range of exactly one tile, and no range leaves
  \<open>[0, N)\<close>.
\<close>

theorem tiles_partition_sites:
  assumes complete:
    "mset (concat (split_in_blocks sitecol'
        (if concurrent_tasks = 0 then 1 else concurrent_tasks))) = mset sitecol'"
  shows "concat (map tile_range (all_args split_in_blocks sitecol' concurrent_tasks))
           = [0 ..< length sitecol']
       \<and> (\<forall>p < length sitecol'.
            \<exists>!j. j < length (all_args split_in_blocks sitecol' concurrent_tasks)
                 \<and> p \<in> set (tile_range (all_args split_in_blocks sitecol' concurrent_tasks ! j)))
       \<and> (\<forall>j < length (all_args split_in_blocks sitecol' concurrent_tasks).
            set (tile_range (all_args split_in_blocks sitecol' concurrent_tasks ! j))
              \<subseteq> {0 ..< length sitecol'})"
proof -
  let ?tiles = "split_in_blocks sitecol' (if concurrent_tasks = 0 then 1 else concurrent_tasks)"
  let ?args = "all_args split_in_blocks sitecol' concurrent_tasks"
  let ?rs = "map tile_range ?args"
  have len: "length (concat ?tiles) = length sitecol'"
    using complete by (metis size_mset)
  have cat: "concat ?rs = [0 ..< length sitecol']"
    using concat_tile_range [of 0 0 ?tiles] len by (simp add: all_args_def)
  have nth_rs: "?rs ! j = tile_range (?args ! j)" if "j < length ?args" for j
    using that by simp
  have inside: "set (tile_range (?args ! j)) \<subseteq> {0 ..< length sitecol'}"
    if j: "j < length ?args" for j
  proof -
    have "set (?rs ! j) \<subseteq> set (concat ?rs)"
      using j by (auto intro: nth_mem)
    then show ?thesis using cat nth_rs [OF j] by simp
  qed
  have one: "\<exists>!j. j < length ?args \<and> p \<in> set (tile_range (?args ! j))"
    if p: "p < length sitecol'" for p
  proof -
    from p cat have "p \<in> set (concat ?rs)" by simp
    then obtain r where "r \<in> set ?rs" "p \<in> set r" by auto
    then obtain j where j: "j < length ?rs" "p \<in> set (?rs ! j)"
      by (metis in_set_conv_nth)
    have d: "distinct (concat ?rs)" using cat by simp
    show ?thesis
    proof (rule ex1I [of _ j])
      show "j < length ?args \<and> p \<in> set (tile_range (?args ! j))"
        using j by simp
    next
      fix j'
      assume "j' < length ?args \<and> p \<in> set (tile_range (?args ! j'))"
      then have "j' < length ?rs" "p \<in> set (?rs ! j')" by simp_all
      with d j show "j' = j"
        using distinct_concat_unique_index [of ?rs j' j p] by blast
    qed
  qed
  from cat one inside show ?thesis by blast
qed

theorem tiles_partition_sites_witness:
  "mset (concat ((\<lambda>s h. [take h s, drop h s]) [10, 20, 30 :: nat] (if (2::nat) = 0 then 1 else 2)))
     = mset [10, 20, 30]
   \<and> all_args (\<lambda>s h. [take h s, drop h s]) [10, 20, 30 :: nat] 2 = [([10, 20], 0, 0), ([30], 2, 1)]
   \<and> concat (map tile_range (all_args (\<lambda>s h. [take h s, drop h s]) [10, 20, 30 :: nat] 2))
       = [0 ..< length [10, 20, 30 :: nat]]"
proof -
  let ?split = "\<lambda>(s :: nat list) h. [take h s, drop h s]"
  have complete: "mset (concat (?split [10, 20, 30] (if (2::nat) = 0 then 1 else 2))) = mset [10, 20, 30]"
    by simp
  have args: "all_args ?split [10, 20, 30] 2 = [([10, 20], 0, 0), ([30], 2, 1)]"
    by (simp add: all_args_def)
  have "concat (map tile_range (all_args ?split [10, 20, 30] 2)) = [0 ..< length [10, 20, 30 :: nat]]"
    using tiles_partition_sites [of ?split "[10, 20, 30]" 2] complete by blast
  with complete args show ?thesis by blast
qed

section \<open>The positional scatter of the tiles\<close>

lemma fold_update_range:
  "p + length vs \<le> length a \<Longrightarrow>
   fold (\<lambda>(i, v) b. b[i := v]) (zip [p ..< p + length vs] vs) a
     = take p a @ vs @ drop (p + length vs) a"
proof (induction vs arbitrary: p a)
  case Nil
  then show ?case by simp
next
  case (Cons v vs)
  have p: "p < length a" using Cons.prems by simp
  have "[p ..< p + Suc (length vs)] = p # [Suc p ..< p + Suc (length vs)]"
    by (rule upt_conv_Cons) simp
  then have range: "[p ..< p + length (v # vs)] = p # [Suc p ..< Suc p + length vs]"
    by simp
  have "fold (\<lambda>(i, v) b. b[i := v]) (zip [Suc p ..< Suc p + length vs] vs) (a[p := v])
      = take (Suc p) (a[p := v]) @ vs @ drop (Suc p + length vs) (a[p := v])"
    using Cons.prems by (intro Cons.IH) simp
  moreover have "take (Suc p) (a[p := v]) = take p a @ [v]"
    using p by (simp add: take_Suc_conv_app_nth)
  moreover have "drop (Suc p + length vs) (a[p := v]) = drop (Suc p + length vs) a"
    by simp
  ultimately show ?case
    unfolding range by simp
qed

lemma setitem_indices_range:
  assumes "length vals = T" and "position + T \<le> length a"
  shows "setitem_indices a [position ..< position + T] vals
           = Inr (take position a @ vals @ drop (position + T) a)"
proof -
  have "\<not> (\<exists>i\<in>set [position ..< position + T]. length a \<le> i)"
    using assms by auto
  moreover have "length vals = length [position ..< position + T]"
    using assms by simp
  ultimately show ?thesis
    using fold_update_range [of position vals a] assms
    by (simp add: setitem_indices_def)
qed

lemma agg_curves_by_trt_gsim_loop_scatter:
  assumes "indices tr = [position ..< position + T]"
  shows "distinct ks \<Longrightarrow>
    \<forall>k\<in>set ks. \<exists>vals a. map_of (curves tr) k = Some vals \<and> length vals = T
        \<and> acc k = Some a \<and> position + T \<le> length a \<Longrightarrow>
    agg_curves_by_trt_gsim_loop acc tr ks =
      Inr (\<lambda>k. if k \<in> set ks
        then Some (take position (the (acc k)) @ the (map_of (curves tr) k)
              @ drop (position + T) (the (acc k)))
        else acc k)"
proof (induction ks arbitrary: acc)
  case Nil
  then show ?case by simp
next
  case (Cons k ks)
  from Cons.prems(2) obtain vals a where
    v: "map_of (curves tr) k = Some vals" "length vals = T"
    and a: "acc k = Some a" "position + T \<le> length a"
    by auto
  let ?a' = "take position a @ vals @ drop (position + T) a"
  have set: "setitem_indices a (indices tr) vals = Inr ?a'"
    using assms v a by (simp add: setitem_indices_range)
  have k: "k \<notin> set ks" using Cons.prems(1) by simp
  have "\<forall>k'\<in>set ks. \<exists>vals a'. map_of (curves tr) k' = Some vals \<and> length vals = T
      \<and> (acc(k \<mapsto> ?a')) k' = Some a' \<and> position + T \<le> length a'"
    using Cons.prems(2) k by auto
  with Cons.prems(1) have
    "agg_curves_by_trt_gsim_loop (acc(k \<mapsto> ?a')) tr ks =
      Inr (\<lambda>k'. if k' \<in> set ks
        then Some (take position (the ((acc(k \<mapsto> ?a')) k')) @ the (map_of (curves tr) k')
              @ drop (position + T) (the ((acc(k \<mapsto> ?a')) k')))
        else (acc(k \<mapsto> ?a')) k')"
    by (intro Cons.IH) simp_all
  with set v a k show ?case
    by (auto intro!: ext)
qed

text \<open>
  C4. Let the tile result carry the indices \<open>[position, position + T)\<close>, \<open>T\<close> curves
  for each of its keys, and let \<open>acc\<close> hold for each of these keys an array that reaches
  up to \<open>position + T\<close>. Then \<open>agg_curves_by_trt_gsim\<close> returns an accumulator in which,
  for each key of the tile result, the array has its length unchanged, holds the tile's
  curves at the positions \<open>position, ..., position + T - 1\<close> and its old entries at every
  other position; the value of every key absent from the tile result is unchanged.
\<close>

theorem agg_curves_by_trt_gsim_scatters:
  assumes keys: "distinct (map fst (curves tr))"
    and idx: "indices tr = [position ..< position + T]"
    and shape: "\<forall>(k, vals)\<in>set (curves tr).
        length vals = T \<and> (\<exists>a. acc k = Some a \<and> position + T \<le> length a)"
  shows "\<exists>acc'. agg_curves_by_trt_gsim acc tr = Inr acc'
      \<and> (\<forall>k vals a. map_of (curves tr) k = Some vals \<and> acc k = Some a \<longrightarrow>
            (\<exists>a'. acc' k = Some a'
               \<and> a' = take position a @ vals @ drop (position + T) a
               \<and> length a' = length a
               \<and> (\<forall>j<T. a' ! (position + j) = vals ! j)
               \<and> (\<forall>i<length a. i \<notin> set (indices tr) \<longrightarrow> a' ! i = a ! i)))
      \<and> (\<forall>k. k \<notin> fst ` set (curves tr) \<longrightarrow> acc' k = acc k)"
proof -
  let ?acc' = "\<lambda>k. if k \<in> set (map fst (curves tr))
        then Some (take position (the (acc k)) @ the (map_of (curves tr) k)
              @ drop (position + T) (the (acc k)))
        else acc k"
  have pre: "\<forall>k\<in>set (map fst (curves tr)). \<exists>vals a. map_of (curves tr) k = Some vals
      \<and> length vals = T \<and> acc k = Some a \<and> position + T \<le> length a"
  proof
    fix k assume "k \<in> set (map fst (curves tr))"
    then obtain vals where m: "map_of (curves tr) k = Some vals"
      by (metis map_of_eq_None_iff not_Some_eq set_map)
    then have "(k, vals) \<in> set (curves tr)" by (rule map_of_SomeD)
    with shape m show "\<exists>vals a. map_of (curves tr) k = Some vals
      \<and> length vals = T \<and> acc k = Some a \<and> position + T \<le> length a"
      by fastforce
  qed
  have run: "agg_curves_by_trt_gsim acc tr = Inr ?acc'"
    unfolding agg_curves_by_trt_gsim_def
    using agg_curves_by_trt_gsim_loop_scatter [OF idx keys pre] .
  have written: "\<exists>a'. ?acc' k = Some a'
               \<and> a' = take position a @ vals @ drop (position + T) a
               \<and> length a' = length a
               \<and> (\<forall>j<T. a' ! (position + j) = vals ! j)
               \<and> (\<forall>i<length a. i \<notin> set (indices tr) \<longrightarrow> a' ! i = a ! i)"
    if m: "map_of (curves tr) k = Some vals" and a: "acc k = Some a" for k vals a
  proof -
    from m have mem: "(k, vals) \<in> set (curves tr)" by (rule map_of_SomeD)
    with shape a have len: "length vals = T" and fit: "position + T \<le> length a"
      by auto
    from mem have k: "k \<in> set (map fst (curves tr))" by force
    let ?a' = "take position a @ vals @ drop (position + T) a"
    have 1: "?acc' k = Some ?a'" using k m a by simp
    have 2: "length ?a' = length a" using len fit by simp
    have 3: "\<forall>j<T. ?a' ! (position + j) = vals ! j"
      using len fit by (simp add: nth_append)
    have 4: "\<forall>i<length a. i \<notin> set (indices tr) \<longrightarrow> ?a' ! i = a ! i"
    proof (intro allI impI)
      fix i assume i: "i < length a" and out: "i \<notin> set (indices tr)"
      from out idx have "i < position \<or> position + T \<le> i" by auto
      then show "?a' ! i = a ! i"
      proof
        assume "i < position"
        then show ?thesis using fit by (simp add: nth_append)
      next
        assume ge: "position + T \<le> i"
        have l1: "length (take position a) = position" using fit by simp
        have "?a' ! i = (vals @ drop (position + T) a) ! (i - position)"
          using ge l1 by (simp add: nth_append)
        also have "\<dots> = drop (position + T) a ! (i - position - T)"
        proof -
          have "\<not> i - position < length vals" using ge len by arith
          then show ?thesis using len by (simp add: nth_append)
        qed
        also have "\<dots> = a ! (position + T + (i - position - T))"
          using fit by (intro nth_drop) simp
        also have "position + T + (i - position - T) = i" using ge by simp
        finally show ?thesis .
      qed
    qed
    from 1 2 3 4 show ?thesis by blast
  qed
  have frame: "\<forall>k. k \<notin> fst ` set (curves tr) \<longrightarrow> ?acc' k = acc k"
    by simp
  from run written frame show ?thesis by blast
qed

theorem agg_curves_by_trt_gsim_scatters_witness:
  "agg_curves_by_trt_gsim
     [(1::nat) \<mapsto> [0, 0, 0, 0 :: int], 2 \<mapsto> [5, 5, 5, 5]]
     \<lparr>curves = [(1, [7, 8])], indices = [1 ..< 1 + 2]\<rparr>
   = Inr [1 \<mapsto> [0, 7, 8, 0], 2 \<mapsto> [5, 5, 5, 5]]"
proof -
  let ?acc = "[(1::nat) \<mapsto> [0, 0, 0, 0 :: int], 2 \<mapsto> [5, 5, 5, 5]]"
  let ?tr = "\<lparr>curves = [(1::nat, [7, 8 :: int])], indices = [1 ..< 1 + 2]\<rparr>"
  have keys: "distinct (map fst (curves ?tr))" by simp
  have idx: "indices ?tr = [1 ..< 1 + 2]" by simp
  have shape: "\<forall>(k, vals)\<in>set (curves ?tr).
      length vals = 2 \<and> (\<exists>a. ?acc k = Some a \<and> 1 + 2 \<le> length a)" by simp
  from agg_curves_by_trt_gsim_scatters [OF keys idx shape]
  obtain acc' where run: "agg_curves_by_trt_gsim ?acc ?tr = Inr acc'"
    and w: "\<forall>k vals a. map_of (curves ?tr) k = Some vals \<and> ?acc k = Some a \<longrightarrow>
            (\<exists>a'. acc' k = Some a' \<and> a' = take 1 a @ vals @ drop (1 + 2) a
               \<and> length a' = length a
               \<and> (\<forall>j<2. a' ! (1 + j) = vals ! j)
               \<and> (\<forall>i<length a. i \<notin> set (indices ?tr) \<longrightarrow> a' ! i = a ! i))"
    and f: "\<forall>k. k \<notin> fst ` set (curves ?tr) \<longrightarrow> acc' k = ?acc k"
    by blast
  have "acc' = [1 \<mapsto> [0, 7, 8, 0], 2 \<mapsto> [5, 5, 5, 5]]"
  proof (rule ext)
    fix k
    show "acc' k = [1 \<mapsto> [0, 7, 8, 0], 2 \<mapsto> [5, 5, 5, 5]] k"
    proof (cases "k = 1")
      case True
      from w have "\<exists>a'. acc' 1 = Some a' \<and> a' = take 1 [0, 0, 0, 0] @ [7, 8] @ drop (1 + 2) [0, 0, 0, 0]"
        by fastforce
      with True show ?thesis by simp
    next
      case False
      with f have "acc' k = ?acc k" by simp
      with False show ?thesis by simp
    qed
  qed
  with run show ?thesis by simp
qed

section \<open>Effective realizations of a tile\<close>





section \<open>Statistics over the realizations\<close>

lemma store_curves_attrs:
  "mean_curves (store_curves hm mu oq d c st) = mean_curves st"
  "quantile (store_curves hm mu oq d c st) = quantile st"
  "curves_by_trt_gsim (store_curves hm mu oq d c st) = curves_by_trt_gsim st"
  "persistent (store_curves hm mu oq d c st) = persistent st"
  by (simp_all add: store_curves_def Let_def)

lemma store_curves_hdf5:
  "(d', x) \<in> set (hdf5 (store_curves hm mu oq d c st)) \<Longrightarrow> (d', x) \<in> set (hdf5 st) \<or> d' = d"
  by (auto simp: store_curves_def Let_def split: if_splits)

lemma fold_store_curves_mean:
  "mean_curves (fold (\<lambda>(k, c). store_curves hm mu oq (f k) c) xs st) = mean_curves st"
  by (induction xs arbitrary: st) (auto simp: store_curves_attrs)

text \<open>
  C5. With exactly one realization \<open>rlz\<close>, whose curves \<open>c\<close> are the only entry of
  \<open>curves_by_rlz\<close>, \<open>post_execute\<close> returns normally; it leaves the calculator as it
  was after the individual curves were stored, but for \<open>mean_curves\<close>, which is \<open>c\<close>
  itself. No quantile is set and no dataset other than \<open>'rlz-%d'\<close> of this realization is
  written: no statistics are computed.
\<close>

theorem post_execute_single_realization:
  assumes one: "rlzs = [rlz]"
    and curves: "combine_curves cbtg zc = [(rlz, c)]"
  shows "post_execute combine_curves hm mu quantile_curve oq rlzs nsites zc cbtg st0
           = (None,
              (if individual_curves oq
               then store_curves hm mu oq (Rlz (ordinal rlz)) c
                      (st0\<lparr>curves_by_trt_gsim := Some cbtg\<rparr>)
               else st0\<lparr>curves_by_trt_gsim := Some cbtg\<rparr>)\<lparr>mean_curves := Some c\<rparr>)
       \<and> mean_curves (snd (post_execute combine_curves hm mu quantile_curve oq rlzs nsites zc
            cbtg st0)) = Some c
       \<and> quantile (snd (post_execute combine_curves hm mu quantile_curve oq rlzs nsites zc
            cbtg st0)) = quantile st0
       \<and> (\<forall>(d, x)\<in>set (hdf5 (snd (post_execute combine_curves hm mu quantile_curve oq rlzs
            nsites zc cbtg st0))). (d, x) \<in> set (hdf5 st0) \<or> d = Rlz (ordinal rlz))"
proof -
  let ?st1 = "st0\<lparr>curves_by_trt_gsim := Some cbtg\<rparr>"
  let ?st2 = "if individual_curves oq
               then store_curves hm mu oq (Rlz (ordinal rlz)) c ?st1 else ?st1"
  have run: "post_execute combine_curves hm mu quantile_curve oq rlzs nsites zc cbtg st0
           = (None, ?st2\<lparr>mean_curves := Some c\<rparr>)"
    using one curves by (simp add: post_execute_def)
  have q: "quantile ?st2 = quantile st0"
    by (simp add: store_curves_attrs)
  have h: "(d, x) \<in> set (hdf5 st0) \<or> d = Rlz (ordinal rlz)"
    if "(d, x) \<in> set (hdf5 ?st2)" for d x
  proof (cases "individual_curves oq")
    case True
    with that have "(d, x) \<in> set (hdf5 ?st1) \<or> d = Rlz (ordinal rlz)"
      using store_curves_hdf5 [of d x hm mu oq "Rlz (ordinal rlz)" c ?st1] by simp
    then show ?thesis by simp
  next
    case False
    with that show ?thesis by simp
  qed
  let ?res = "post_execute combine_curves hm mu quantile_curve oq rlzs nsites zc cbtg st0"
  have snd_res: "snd ?res = ?st2\<lparr>mean_curves := Some c\<rparr>"
    using run by simp
  have m: "mean_curves (snd ?res) = Some c"
    unfolding snd_res by simp
  have q': "quantile (snd ?res) = quantile st0"
    unfolding snd_res using q by simp
  have h': "\<forall>(d, x)\<in>set (hdf5 (snd ?res)). (d, x) \<in> set (hdf5 st0) \<or> d = Rlz (ordinal rlz)"
  proof (clarify)
    fix d x
    assume "(d, x) \<in> set (hdf5 (snd ?res))" and "d \<noteq> Rlz (ordinal rlz)"
    then have "(d, x) \<in> set (hdf5 ?st2)" unfolding snd_res by simp
    then have "(d, x) \<in> set (hdf5 st0) \<or> d = Rlz (ordinal rlz)" by (rule h)
    with \<open>d \<noteq> Rlz (ordinal rlz)\<close> show "(d, x) \<in> set (hdf5 st0)" by simp
  qed
  from run m q' h' show ?thesis by (intro conjI)
qed

theorem post_execute_single_realization_witness:
  "post_execute (\<lambda>d zc. d) (\<lambda>c. ()) (\<lambda>m. ()) (\<lambda>vs q ws. Inl TypeError)
     \<lparr>imtls = [(''PGA'', [1/10])], individual_curves = True, number_of_logic_tree_samples = 0,
      mean_hazard_curves = True, quantile_hazard_curves = [1/2], hazard_maps = False,
      uniform_hazard_spectra = False\<rparr>
     [\<lparr>ordinal = 0, weight = 1\<rparr>] 1 [''PGA'' \<mapsto> [0]]
     [(\<lparr>ordinal = 0, weight = 1\<rparr>, [''PGA'' \<mapsto> [3/10]])]
     \<lparr>persistent = True, curves_by_trt_gsim = None, mean_curves = None, quantile = None,
      hdf5 = []\<rparr>
   = (None,
      \<lparr>persistent = True,
       curves_by_trt_gsim = Some [(\<lparr>ordinal = 0, weight = 1\<rparr>, [''PGA'' \<mapsto> [3/10]])],
       mean_curves = Some [''PGA'' \<mapsto> [3/10]], quantile = None,
       hdf5 = [(Rlz 0, HCurves [''PGA'' \<mapsto> [3/10]])]\<rparr>)"
proof -
  let ?rlz = "\<lparr>ordinal = 0, weight = 1\<rparr>"
  let ?d = "[(?rlz, [''PGA'' \<mapsto> [3/10 :: real]])]"
  have one: "[?rlz] = [?rlz]" by simp
  have curves: "(\<lambda>d (zc :: string curves_array). d) ?d [''PGA'' \<mapsto> [0]]
      = [(?rlz, [''PGA'' \<mapsto> [3/10]])]" by simp
  show ?thesis
    using post_execute_single_realization
      [where rlzs = "[?rlz]" and rlz = ?rlz and c = "[''PGA'' \<mapsto> [3/10]]"
        and combine_curves = "\<lambda>d (zc :: string curves_array). d" and cbtg = ?d
        and zc = "[''PGA'' \<mapsto> [0]]" and hm = "\<lambda>c. ()" and mu = "\<lambda>m. ()"
        and quantile_curve = "\<lambda>vs q ws. Inl TypeError"
        and oq = "\<lparr>imtls = [(''PGA'', [1/10])], individual_curves = True,
          number_of_logic_tree_samples = 0, mean_hazard_curves = True,
          quantile_hazard_curves = [1/2], hazard_maps = False,
          uniform_hazard_spectra = False\<rparr>"
        and nsites = 1
        and ?st0.0 = "\<lparr>persistent = True, curves_by_trt_gsim = None, mean_curves = None,
          quantile = None, hdf5 = []\<rparr>",
       OF one curves]
    by (simp add: store_curves_def)
qed

lemma field_by_rlz_ok:
  "\<forall>r\<in>set rlzs. \<exists>c. map_of cbr r = Some c \<and> c imt = Some (val r imt) \<Longrightarrow>
   field_by_rlz cbr rlzs imt = Inr (map (\<lambda>r. val r imt) rlzs)"
  by (induction rlzs) auto

lemma sum_zip_weights:
  "(\<Sum>(w, v)\<leftarrow>zip (map weight rlzs) (map val rlzs). w * v ! i)
     = (\<Sum>r\<leftarrow>rlzs. weight r * val r ! i)"
  by (induction rlzs) simp_all

lemma sum_values: "(\<Sum>v\<leftarrow>map val rlzs. v ! i) = (\<Sum>r\<leftarrow>rlzs. val r ! i)"
  by (induction rlzs) simp_all

lemma mean_curve_value:
  assumes ne: "rlzs \<noteq> []"
    and len: "\<forall>r\<in>set rlzs. length (val r) = n"
    and ws: "weights = (if sampling then None else Some (map weight rlzs))"
    and wsum: "\<not> sampling \<longrightarrow> (\<Sum>r\<leftarrow>rlzs. weight r) \<noteq> 0"
  shows "mean_curve (map val rlzs) weights
           = Inr (map (expected_mean sampling rlzs val) [0 ..< n])"
proof -
  from ne obtain r0 rs where rlzs: "rlzs = r0 # rs" by (cases rlzs) auto
  have v0: "length (val r0) = n" using len rlzs by simp
  have same: "\<not> (\<exists>v\<in>set (map val rlzs). length v \<noteq> length (val r0))"
    using len v0 by auto
  show ?thesis
  proof (cases sampling)
    case True
    have "mean_curve (map val rlzs) None
        = Inr (map (\<lambda>i. (\<Sum>v\<leftarrow>map val rlzs. v ! i) / real (length (map val rlzs))) [0 ..< n])"
      using same v0 unfolding mean_curve_def rlzs by simp
    also have "\<dots> = Inr (map (expected_mean True rlzs val) [0 ..< n])"
      by (simp add: expected_mean_def sum_values o_def)
    finally show ?thesis using True ws by simp
  next
    case False
    with wsum have nz: "sum_list (map weight rlzs) \<noteq> 0" by simp
    have "mean_curve (map val rlzs) (Some (map weight rlzs))
        = Inr (map (\<lambda>i. (\<Sum>(w, v)\<leftarrow>zip (map weight rlzs) (map val rlzs). w * v ! i)
                     / sum_list (map weight rlzs)) [0 ..< n])"
      using same v0 nz unfolding mean_curve_def rlzs by simp
    also have "\<dots> = Inr (map (expected_mean False rlzs val) [0 ..< n])"
      by (simp add: expected_mean_def sum_zip_weights)
    finally show ?thesis using False ws by simp
  qed
qed

lemma mean_loop_ok:
  assumes ne: "rlzs \<noteq> []"
    and ws: "weights = (if sampling then None else Some (map weight rlzs))"
    and wsum: "\<not> sampling \<longrightarrow> (\<Sum>r\<leftarrow>rlzs. weight r) \<noteq> 0"
  shows "\<forall>imt\<in>set imts. (\<exists>z. mc imt = Some z \<and> length z = n imt)
        \<and> (\<forall>r\<in>set rlzs. \<exists>c. map_of cbr r = Some c \<and> c imt = Some (val r imt)
              \<and> length (val r imt) = n imt) \<Longrightarrow>
    mean_loop cbr rlzs weights imts mc =
      (None, \<lambda>k. if k \<in> set imts
                 then Some (map (expected_mean sampling rlzs (\<lambda>r. val r k)) [0 ..< n k])
                 else mc k)"
proof (induction imts arbitrary: mc)
  case Nil
  then show ?case by simp
next
  case (Cons imt imts)
  let ?M = "\<lambda>k. map (expected_mean sampling rlzs (\<lambda>r. val r k)) [0 ..< n k]"
  from Cons.prems obtain z where z: "mc imt = Some z" "length z = n imt" by auto
  have vals: "\<forall>r\<in>set rlzs. \<exists>c. map_of cbr r = Some c \<and> c imt = Some (val r imt)"
    using Cons.prems by fastforce
  have lens: "\<forall>r\<in>set rlzs. length (val r imt) = n imt"
    using Cons.prems by fastforce
  have f: "field_by_rlz cbr rlzs imt = Inr (map (\<lambda>r. val r imt) rlzs)"
    using vals by (rule field_by_rlz_ok)
  have m: "mean_curve (map (\<lambda>r. val r imt) rlzs) weights = Inr (?M imt)"
    using ne lens ws wsum by (rule mean_curve_value)
  have s: "setfield mc imt (?M imt) = Inr (mc(imt \<mapsto> ?M imt))"
    using z by (simp add: setfield_def)
  have pre: "\<forall>k\<in>set imts. (\<exists>z. (mc(imt \<mapsto> ?M imt)) k = Some z \<and> length z = n k)
        \<and> (\<forall>r\<in>set rlzs. \<exists>c. map_of cbr r = Some c \<and> c k = Some (val r k)
              \<and> length (val r k) = n k)"
    using Cons.prems by auto
  have "mean_loop cbr rlzs weights imts (mc(imt \<mapsto> ?M imt)) =
      (None, \<lambda>k. if k \<in> set imts then Some (?M k) else (mc(imt \<mapsto> ?M imt)) k)"
    using pre by (rule Cons.IH)
  also have "(\<lambda>k. if k \<in> set imts then Some (?M k) else (mc(imt \<mapsto> ?M imt)) k)
      = (\<lambda>k. if k \<in> set (imt # imts) then Some (?M k) else mc k)"
    by (rule ext) simp
  finally have rec: "mean_loop cbr rlzs weights imts (mc(imt \<mapsto> ?M imt)) =
      (None, \<lambda>k. if k \<in> set (imt # imts) then Some (?M k) else mc k)" .
  show ?case
    by (simp only: mean_loop.simps f m s sum.case rec)
qed

lemma fold_store_curves_quantile_mean:
  "mean_curves (fold (\<lambda>(q, qc). store_curves hm mu oq (Quantile q) qc) qd st) = mean_curves st"
  by (rule fold_store_curves_mean)

text \<open>
  C6. With more than one realization and the mean curves requested, \<open>post_execute\<close>
  sets \<open>mean_curves\<close> so that, for every intensity measure type and every point \<open>i\<close>,
  the mean is \<open>\<Sigma>_r weight[r] * value[r][i] / \<Sigma>_r weight[r]\<close> with the
  realizations' weights when \<open>number_of_logic_tree_samples\<close> is zero, and the arithmetic
  mean \<open>\<Sigma>_r value[r][i] / R\<close> (weights = None) when it is not. The curves of every
  realization have the shape of the zero curves, and the weights do not sum to zero.
\<close>

theorem post_execute_weighted_mean:
  assumes many: "1 < length rlzs"
    and mean: "mean_hazard_curves oq"
    and shape: "\<forall>imt\<in>fst ` set (imtls oq).
        (\<exists>z. zc imt = Some z \<and> length z = n imt)
        \<and> (\<forall>r\<in>set rlzs. \<exists>c. map_of (combine_curves cbtg zc) r = Some c
              \<and> c imt = Some (val r imt) \<and> length (val r imt) = n imt)"
    and wsum: "number_of_logic_tree_samples oq = 0 \<longrightarrow> (\<Sum>r\<leftarrow>rlzs. weight r) \<noteq> 0"
  shows "\<exists>e st'. post_execute combine_curves hm mu quantile_curve oq rlzs nsites zc cbtg st0
             = (e, st')
      \<and> (quantile_hazard_curves oq = [] \<longrightarrow> e = None)
      \<and> (\<exists>mc. mean_curves st' = Some mc
           \<and> (\<forall>imt\<in>fst ` set (imtls oq). \<exists>m. mc imt = Some m \<and> length m = n imt
                \<and> (\<forall>i<n imt. m ! i =
                      (if number_of_logic_tree_samples oq \<noteq> 0
                       then (\<Sum>r\<leftarrow>rlzs. val r imt ! i) / real (length rlzs)
                       else (\<Sum>r\<leftarrow>rlzs. weight r * val r imt ! i)
                              / (\<Sum>r\<leftarrow>rlzs. weight r)))))"
proof -
  let ?sampling = "number_of_logic_tree_samples oq \<noteq> 0"
  let ?weights = "if ?sampling then None else Some (map weight rlzs)"
  let ?cbr = "combine_curves cbtg zc"
  let ?imts = "map fst (imtls oq)"
  let ?st1 = "st0\<lparr>curves_by_trt_gsim := Some cbtg\<rparr>"
  let ?st2 = "if individual_curves oq
              then fold (\<lambda>(rlz, curves'). store_curves hm mu oq (Rlz (ordinal rlz)) curves')
                     ?cbr ?st1
              else ?st1"
  let ?mc = "\<lambda>k. if k \<in> set ?imts
                 then Some (map (expected_mean ?sampling rlzs (\<lambda>r. val r k)) [0 ..< n k])
                 else zc k"
  let ?st3 = "?st2\<lparr>mean_curves := Some ?mc\<rparr>"
  have ne: "rlzs \<noteq> []" and n1: "length rlzs \<noteq> 1" using many by auto
  have pre: "\<forall>imt\<in>set ?imts. (\<exists>z. zc imt = Some z \<and> length z = n imt)
        \<and> (\<forall>r\<in>set rlzs. \<exists>c. map_of ?cbr r = Some c \<and> c imt = Some (val r imt)
              \<and> length (val r imt) = n imt)"
    using shape by simp
  have wsum': "\<not> ?sampling \<longrightarrow> (\<Sum>r\<leftarrow>rlzs. weight r) \<noteq> 0"
    using wsum by simp
  have loop: "mean_loop ?cbr rlzs ?weights ?imts zc = (None, ?mc)"
    using mean_loop_ok [OF ne refl wsum' pre] .
  obtain eq qd where ql: "quantile_loop quantile_curve ?cbr rlzs ?weights nsites ?imts zc
      (quantile_hazard_curves oq) [] = (eq, qd)"
    by (cases "quantile_loop quantile_curve ?cbr rlzs ?weights nsites ?imts zc
      (quantile_hazard_curves oq) []") auto
  let ?st4 = "?st3\<lparr>quantile := Some qd\<rparr>"
  let ?final = "fold (\<lambda>(q, qc). store_curves hm mu oq (Quantile q) qc) qd
      (store_curves hm mu oq Mean ?mc ?st4)"
  have run: "post_execute combine_curves hm mu quantile_curve oq rlzs nsites zc cbtg st0
      = (case eq of Some e \<Rightarrow> (Some e, ?st4) | None \<Rightarrow> (None, ?final))"
    using n1 mean loop ql
    by (simp add: post_execute_def Let_def split: option.splits)
  define st' where "st' = (case eq of Some e \<Rightarrow> ?st4 | None \<Rightarrow> ?final)"
  have res: "post_execute combine_curves hm mu quantile_curve oq rlzs nsites zc cbtg st0
      = (eq, st')"
    using run by (simp add: st'_def split: option.splits)
  have noq: "quantile_hazard_curves oq = [] \<longrightarrow> eq = None"
    using ql by auto
  have mc: "mean_curves st' = Some ?mc"
    by (simp add: st'_def fold_store_curves_quantile_mean store_curves_attrs
        split: option.splits)
  have vals: "\<forall>imt\<in>fst ` set (imtls oq). \<exists>m. ?mc imt = Some m \<and> length m = n imt
                \<and> (\<forall>i<n imt. m ! i =
                      (if ?sampling
                       then (\<Sum>r\<leftarrow>rlzs. val r imt ! i) / real (length rlzs)
                       else (\<Sum>r\<leftarrow>rlzs. weight r * val r imt ! i)
                              / (\<Sum>r\<leftarrow>rlzs. weight r)))"
  proof
    fix imt assume "imt \<in> fst ` set (imtls oq)"
    then have in_imts: "imt \<in> set ?imts" by simp
    let ?m = "map (expected_mean ?sampling rlzs (\<lambda>r. val r imt)) [0 ..< n imt]"
    have 1: "?mc imt = Some ?m" using in_imts by simp
    have 2: "length ?m = n imt" by simp
    have 3: "\<forall>i<n imt. ?m ! i =
                      (if ?sampling
                       then (\<Sum>r\<leftarrow>rlzs. val r imt ! i) / real (length rlzs)
                       else (\<Sum>r\<leftarrow>rlzs. weight r * val r imt ! i)
                              / (\<Sum>r\<leftarrow>rlzs. weight r))"
      by (simp add: expected_mean_def)
    from 1 2 3 show "\<exists>m. ?mc imt = Some m \<and> length m = n imt
                \<and> (\<forall>i<n imt. m ! i =
                      (if ?sampling
                       then (\<Sum>r\<leftarrow>rlzs. val r imt ! i) / real (length rlzs)
                       else (\<Sum>r\<leftarrow>rlzs. weight r * val r imt ! i)
                              / (\<Sum>r\<leftarrow>rlzs. weight r)))"
      by blast
  qed
  from res noq mc vals show ?thesis by blast
qed

theorem post_execute_weighted_mean_witness:
  "\<exists>mc. mean_curves (snd (post_execute (\<lambda>d zc. d) (\<lambda>c. ()) (\<lambda>m. ())
       (\<lambda>vs q ws. Inl TypeError)
       \<lparr>imtls = [(''PGA'', [1/10])], individual_curves = False,
        number_of_logic_tree_samples = 0, mean_hazard_curves = True,
        quantile_hazard_curves = [], hazard_maps = False, uniform_hazard_spectra = False\<rparr>
       [\<lparr>ordinal = 0, weight = 6/10\<rparr>, \<lparr>ordinal = 1, weight = 4/10\<rparr>] 1
       [''PGA'' \<mapsto> [0]]
       [(\<lparr>ordinal = 0, weight = 6/10\<rparr>, [''PGA'' \<mapsto> [1]]),
        (\<lparr>ordinal = 1, weight = 4/10\<rparr>, [''PGA'' \<mapsto> [2]])]
       \<lparr>persistent = False, curves_by_trt_gsim = None, mean_curves = None, quantile = None,
        hdf5 = []\<rparr>)) = Some mc
     \<and> mc ''PGA'' = Some [14/10]"
proof -
  let ?r0 = "\<lparr>ordinal = 0, weight = 6/10\<rparr>"
  let ?r1 = "\<lparr>ordinal = 1, weight = 4/10\<rparr>"
  let ?rlzs = "[?r0, ?r1]"
  let ?oq = "\<lparr>imtls = [(''PGA'', [1/10 :: real])], individual_curves = False,
        number_of_logic_tree_samples = 0, mean_hazard_curves = True,
        quantile_hazard_curves = [], hazard_maps = False, uniform_hazard_spectra = False\<rparr>"
  let ?zc = "[''PGA'' \<mapsto> [0 :: real]]"
  let ?d = "[(?r0, [''PGA'' \<mapsto> [1 :: real]]), (?r1, [''PGA'' \<mapsto> [2]])]"
  let ?cc = "\<lambda>(d :: (realization \<times> string curves_array) list) (zc :: string curves_array). d"
  let ?val = "\<lambda>(r :: realization) (imt :: string). if ordinal r = 0 then [1 :: real] else [2]"
  let ?n = "\<lambda>imt :: string. 1 :: nat"
  let ?st0 = "\<lparr>persistent = False, curves_by_trt_gsim = None :: (realization \<times> string curves_array) list option,
        mean_curves = None :: string curves_array option, quantile = None, hdf5 = [] :: (dset \<times> (string curves_array, unit, unit) dataset) list\<rparr>"
  have many: "1 < length ?rlzs" by simp
  have mean: "mean_hazard_curves ?oq" by simp
  have shape: "\<forall>imt\<in>fst ` set (imtls ?oq).
        (\<exists>z. ?zc imt = Some z \<and> length z = ?n imt)
        \<and> (\<forall>r\<in>set ?rlzs. \<exists>c. map_of (?cc ?d ?zc) r = Some c
              \<and> c imt = Some (?val r imt) \<and> length (?val r imt) = ?n imt)"
    by simp
  have wsum: "number_of_logic_tree_samples ?oq = 0 \<longrightarrow> (\<Sum>r\<leftarrow>?rlzs. weight r) \<noteq> 0"
    by simp
  from post_execute_weighted_mean
    [where rlzs = ?rlzs and oq = ?oq and zc = ?zc and n = ?n and combine_curves = ?cc
       and cbtg = ?d and val = ?val and hm = "\<lambda>c. ()" and mu = "\<lambda>m. ()"
       and quantile_curve = "\<lambda>vs q ws. Inl TypeError" and nsites = 1 and ?st0.0 = ?st0,
     OF many mean shape wsum]
  obtain e st' mc where run: "post_execute ?cc (\<lambda>c. ()) (\<lambda>m. ()) (\<lambda>vs q ws. Inl TypeError)
        ?oq ?rlzs 1 ?zc ?d ?st0 = (e, st')"
    and mc: "mean_curves st' = Some mc"
    and pts: "\<forall>imt\<in>fst ` set (imtls ?oq). \<exists>m. mc imt = Some m \<and> length m = ?n imt
                \<and> (\<forall>i<?n imt. m ! i =
                      (if number_of_logic_tree_samples ?oq \<noteq> 0
                       then (\<Sum>r\<leftarrow>?rlzs. ?val r imt ! i) / real (length ?rlzs)
                       else (\<Sum>r\<leftarrow>?rlzs. weight r * ?val r imt ! i)
                              / (\<Sum>r\<leftarrow>?rlzs. weight r)))"
    by blast
  from pts obtain m where m: "mc ''PGA'' = Some m" "length m = 1" "m ! 0 = 14/10"
    by auto
  from m(2) obtain x where "m = [x]" by (cases m) auto
  with m have "mc ''PGA'' = Some [14/10]" by simp
  with run mc show ?thesis by auto
qed

section \<open>Collecting files\<close>

lemma collect_files_default: "collect_files (\<lambda>fullname. True) dirpath entries = all_files dirpath entries"
  by (induction dirpath entries rule: all_files.induct) simp_all

lemma all_files_split:
  "mset (all_files dirpath entries)
     = mset (direct_files dirpath entries) + mset (subdir_files dirpath entries)"
  by (induction dirpath entries rule: direct_files.induct) simp_all

text \<open>
  C9. For every directory tree and every condition \<open>cond\<close>, \<open>collect_files\<close> returns the
  files directly in \<open>dirpath\<close> that satisfy \<open>cond\<close> together with every file inside a
  subdirectory, at any depth, whatever \<open>cond\<close> says of it: inside a subdirectory
  the function collects as with the accept-everything default.
\<close>

theorem collect_files_cond_top_level_only:
  "mset (collect_files cond dirpath entries)
     = mset (filter cond (direct_files dirpath entries)) + mset (subdir_files dirpath entries)
   \<and> set (subdir_files dirpath entries) \<subseteq> set (collect_files cond dirpath entries)
   \<and> collect_files cond dirpath ((fname, Dir sub) # entries)
        = all_files (path_join dirpath fname) sub @ collect_files cond dirpath entries"
proof -
  have m: "mset (collect_files cond dirpath entries)
     = mset (filter cond (direct_files dirpath entries)) + mset (subdir_files dirpath entries)"
    by (induction dirpath entries rule: direct_files.induct)
      (simp_all add: collect_files_default)
  then have "set_mset (mset (subdir_files dirpath entries))
      \<subseteq> set_mset (mset (collect_files cond dirpath entries))"
    by (simp only: set_mset_union) blast
  then have s: "set (subdir_files dirpath entries) \<subseteq> set (collect_files cond dirpath entries)"
    by simp
  have r: "collect_files cond dirpath ((fname, Dir sub) # entries)
        = all_files (path_join dirpath fname) sub @ collect_files cond dirpath entries"
    by (simp add: collect_files_default)
  from m s r show ?thesis by simp
qed

theorem collect_files_cond_top_level_only_witness:
  "collect_files (\<lambda>fullname. endswith fullname ''.ini'') ''/tmp''
     [(''job.ini'', File), (''notes.txt'', File),
      (''sub'', Dir [(''deep.txt'', File), (''d2'', Dir [(''x.bin'', File)])])]
   = [''/tmp/job.ini'', ''/tmp/sub/deep.txt'', ''/tmp/sub/d2/x.bin'']
   \<and> set (subdir_files ''/tmp''
          [(''job.ini'', File), (''notes.txt'', File),
           (''sub'', Dir [(''deep.txt'', File), (''d2'', Dir [(''x.bin'', File)])])])
       \<subseteq> set (collect_files (\<lambda>fullname. endswith fullname ''.ini'') ''/tmp''
          [(''job.ini'', File), (''notes.txt'', File),
           (''sub'', Dir [(''deep.txt'', File), (''d2'', Dir [(''x.bin'', File)])])])"
proof -
  let ?entries = "[(''job.ini'', File), (''notes.txt'', File),
      (''sub'', Dir [(''deep.txt'', File), (''d2'', Dir [(''x.bin'', File)])])]"
  let ?cond = "\<lambda>fullname. endswith fullname ''.ini''"
  have run: "collect_files ?cond ''/tmp'' ?entries
      = [''/tmp/job.ini'', ''/tmp/sub/deep.txt'', ''/tmp/sub/d2/x.bin'']"
    by (simp add: path_join_def endswith_def)
  have "set (subdir_files ''/tmp'' ?entries) \<subseteq> set (collect_files ?cond ''/tmp'' ?entries)"
    using collect_files_cond_top_level_only [of ?cond "''/tmp''" ?entries] by blast
  with run show ?thesis by (intro conjI)
qed

section \<open>The existence check of \<open>get_params\<close>\<close>

lemma length_filter_eq_length: "length (filter P xs) = length xs \<longleftrightarrow> (\<forall>x\<in>set xs. P x)"
proof
  assume "length (filter P xs) = length xs"
  moreover have "length (filter P xs) + length (filter (\<lambda>x. \<not> P x) xs) = length xs"
    by (rule sum_length_filter_compl)
  ultimately have "filter (\<lambda>x. \<not> P x) xs = []" by simp
  then show "\<forall>x\<in>set xs. P x" by (simp add: filter_empty_conv)
next
  assume "\<forall>x\<in>set xs. P x"
  then have "filter P xs = xs" by (simp add: filter_id_conv)
  then show "length (filter P xs) = length xs" by simp
qed

text \<open>
  On a list that is not empty and is not a single zip archive, the check raises
  \<open>IOError\<close> exactly when none of the files exists, and otherwise hands the whole list to
  the parser.
\<close>

lemma get_params_nonempty:
  assumes ne: "job_inis \<noteq> []"
    and nozip: "\<not> (length job_inis = 1 \<and> endswith (job_inis ! 0) ''.zip'')"
  shows "get_params exists unzip temp_dir parse job_inis =
     (if \<forall>ini\<in>set job_inis. \<not> exists ini
      then Inl (IOError (''File not found: '' @ hd job_inis))
      else parse job_inis)"
proof -
  have step: "get_params exists unzip temp_dir parse job_inis =
     (let not_found = filter (\<lambda>ini. \<not> exists ini) job_inis in
      if length not_found = length job_inis then
        (case not_found of
           [] \<Rightarrow> Inl IndexError
         | missing # _ \<Rightarrow> Inl (IOError (''File not found: '' @ missing)))
      else parse job_inis)"
    unfolding get_params_def by (simp only: nozip if_False sum.case prod.case)
  show ?thesis
  proof (cases "\<forall>ini\<in>set job_inis. \<not> exists ini")
    case True
    then have all: "filter (\<lambda>ini. \<not> exists ini) job_inis = job_inis"
      by (simp add: filter_id_conv)
    from ne obtain x xs where "job_inis = x # xs" by (cases job_inis) auto
    with all True show ?thesis
      unfolding step by (simp add: Let_def)
  next
    case False
    then have "length (filter (\<lambda>ini. \<not> exists ini) job_inis) \<noteq> length job_inis"
      by (simp add: length_filter_eq_length)
    with False show ?thesis
      unfolding step by (auto simp: Let_def)
  qed
qed

text \<open>
  C10. On the empty list, none of the given files exists and \<open>get_params\<close> reaches
  \<open>raise IOError('File not found: %s' % not_found[0])\<close>, where \<open>not_found[0]\<close> raises
  \<open>IndexError\<close>: no \<open>IOError\<close> is raised. The same happens for an archive that exists and
  holds none of the four job files, where \<open>extract_from_zip\<close> returns the empty list.
\<close>

theorem get_params_empty_list_IndexError:
  "get_params exists unzip temp_dir parse [] = Inl IndexError
   \<and> get_params (\<lambda>p. p = ''archive.zip'') (\<lambda>p. Inr [(''readme.txt'', File)]) ''/tmp/tmpdir''
        parse [''archive.zip''] = Inl IndexError"
  by (simp add: get_params_def extract_from_zip_def endswith_def basename_def path_join_def)

section \<open>Losses per asset in \<open>scenario_risk\<close>\<close>

lemma reduce_append:
  "reduce f (xs @ ys) acc = (case reduce f xs acc of Inl e \<Rightarrow> Inl e | Inr acc' \<Rightarrow> reduce f ys acc')"
  by (induction xs arbitrary: acc) (simp_all split: sum.splits)

lemma reduce_concat:
  "reduce (\<lambda>acc xs. reduce f xs acc) xss acc = reduce f (concat xss) acc"
  by (induction xss arbitrary: acc) (simp_all add: reduce_append split: sum.splits)

lemma well_typed_asset:
  "well_typed d \<Longrightarrow> asset_key k \<Longrightarrow> well_typed (d(k \<mapsto> AssetLosses ts))"
  by (simp add: well_typed_def)

lemma well_typed_losses:
  "well_typed d \<Longrightarrow> \<not> asset_key k \<Longrightarrow> well_typed (d(k \<mapsto> Losses a))"
  by (simp add: well_typed_def)

lemma well_typedD:
  "well_typed d \<Longrightarrow> d k = Some v \<Longrightarrow>
   (case v of AssetLosses ts \<Rightarrow> asset_key k | Losses a \<Rightarrow> \<not> asset_key k)"
  unfolding well_typed_def by blast

lemma iadd_at_asset:
  assumes "result h = Some d" and "well_typed d" and "asset_key k"
  shows "iadd_at (losses_plus add) result h [(k, AssetLosses c)]
           = Inr (result(h \<mapsto> d(k \<mapsto> AssetLosses (triples (d k) @ c))))"
proof (cases "d k")
  case None
  with assms show ?thesis by (simp add: iadd_at_def)
next
  case (Some v)
  from well_typedD [OF assms(2) Some] assms(3) obtain ts where "v = AssetLosses ts"
    by (cases v) simp_all
  with Some assms show ?thesis by (simp add: iadd_at_def)
qed

lemma iadd_at_losses:
  assumes "result h = Some d" and "well_typed d" and "\<not> asset_key k"
  shows "\<exists>l. iadd_at (losses_plus add) result h [(k, Losses a)]
           = Inr (result(h \<mapsto> d(k \<mapsto> Losses l)))"
proof (cases "d k")
  case None
  with assms have "iadd_at (losses_plus add) result h [(k, Losses a)]
      = Inr (result(h \<mapsto> d(k \<mapsto> Losses a)))"
    by (simp add: iadd_at_def)
  then show ?thesis by blast
next
  case (Some v)
  from well_typedD [OF assms(2) Some] assms(3) obtain b where "v = Losses b"
    by (cases v) simp_all
  with Some assms have "iadd_at (losses_plus add) result h [(k, Losses a)]
      = Inr (result(h \<mapsto> d(k \<mapsto> Losses (add b a))))"
    by (simp add: iadd_at_def)
  then show ?thesis by blast
qed

lemma add_output_step:
  fixes out :: "('i, 'lt, 'mat, 'l) risk_output"
    and mean1 :: "'mat \<Rightarrow> 'm" and std1 :: "'mat \<Rightarrow> 's list" and add :: "'l \<Rightarrow> 'l \<Rightarrow> 'l"
  assumes res: "result (hid out) = Some d" and wt: "well_typed d"
  shows "\<exists>d'. add_output mean1 std1 add result out = Inr (result(hid out \<mapsto> d'))
      \<and> well_typed d'
      \<and> (\<forall>k. asset_key k \<longrightarrow>
            d' k = (case contrib mean1 std1 out k of
                      None \<Rightarrow> d k
                    | Some c \<Rightarrow> Some (AssetLosses (triples (d k) @ c))))"
proof -
  let ?h = "hid out"
  let ?k1 = "(''asset-loss'', loss_type out)"
  let ?k2 = "(''agg'', loss_type out)"
  let ?k3 = "(''asset-ins'', loss_type out)"
  let ?k4 = "(''ins'', loss_type out)"
  let ?c1 = "lpa (assets out) [mean1 (loss_matrix out)] (std1 (loss_matrix out))"
  let ?plus = "losses_plus add :: ('i, 'm, 's, 'l) losses \<Rightarrow> _"
  have a1: "asset_key ?k1" and a2: "\<not> asset_key ?k2"
    and a3: "asset_key ?k3" and a4: "\<not> asset_key ?k4"
    by (simp_all add: asset_key_def)
  let ?d1 = "d(?k1 \<mapsto> AssetLosses (triples (d ?k1) @ ?c1))"
  let ?r1 = "result(?h \<mapsto> ?d1)"
  have s1: "iadd_at ?plus result ?h [(?k1, AssetLosses ?c1)] = Inr ?r1"
    using res wt a1 by (rule iadd_at_asset)
  have wt1: "well_typed ?d1" using wt a1 by (rule well_typed_asset)
  have r1h: "?r1 ?h = Some ?d1" by simp
  from iadd_at_losses [where result = ?r1 and h = ?h and d = ?d1 and k = ?k2 and add = add
      and a = "aggregate_losses out", OF r1h wt1 a2]
  obtain l2 where s2: "iadd_at ?plus ?r1 ?h [(?k2, Losses (aggregate_losses out))]
      = Inr (?r1(?h \<mapsto> ?d1(?k2 \<mapsto> Losses l2)))"
    by blast
  let ?d2 = "?d1(?k2 \<mapsto> Losses l2)"
  let ?r2 = "result(?h \<mapsto> ?d2)"
  have r2: "?r1(?h \<mapsto> ?d2) = ?r2" by simp
  have wt2: "well_typed ?d2" using wt1 a2 by (rule well_typed_losses)
  have d2: "?d2 k = (if k = ?k1 then Some (AssetLosses (triples (d ?k1) @ ?c1)) else d k)"
    if "asset_key k" for k
    using that a2 by auto
  show ?thesis
  proof (cases "insured_loss_matrix out")
    case None
    have run: "add_output mean1 std1 add result out = Inr ?r2"
      using s1 s2 r2 None by (simp add: add_output_def)
    have "\<forall>k. asset_key k \<longrightarrow>
            ?d2 k = (case contrib mean1 std1 out k of
                      None \<Rightarrow> d k
                    | Some c \<Rightarrow> Some (AssetLosses (triples (d k) @ c)))"
      using d2 None by (simp add: contrib_def)
    with run wt2 show ?thesis by blast
  next
    case (Some ilm)
    let ?c3 = "lpa (assets out) [mean1 ilm] (std1 ilm)"
    let ?d3 = "?d2(?k3 \<mapsto> AssetLosses (triples (?d2 ?k3) @ ?c3))"
    let ?r3 = "result(?h \<mapsto> ?d3)"
    have r2h: "?r2 ?h = Some ?d2" by simp
    have s3: "iadd_at ?plus ?r2 ?h [(?k3, AssetLosses ?c3)] = Inr (?r2(?h \<mapsto> ?d3))"
      using r2h wt2 a3 by (rule iadd_at_asset)
    have r3: "?r2(?h \<mapsto> ?d3) = ?r3" by simp
    have wt3: "well_typed ?d3" using wt2 a3 by (rule well_typed_asset)
    have r3h: "?r3 ?h = Some ?d3" by simp
    from iadd_at_losses [where result = ?r3 and h = ?h and d = ?d3 and k = ?k4 and add = add
        and a = "insured_losses out", OF r3h wt3 a4]
    obtain l4 where s4: "iadd_at ?plus ?r3 ?h [(?k4, Losses (insured_losses out))]
        = Inr (?r3(?h \<mapsto> ?d3(?k4 \<mapsto> Losses l4)))"
      by blast
    let ?d4 = "?d3(?k4 \<mapsto> Losses l4)"
    let ?r4 = "result(?h \<mapsto> ?d4)"
    have r4: "?r3(?h \<mapsto> ?d4) = ?r4" by simp
    have wt4: "well_typed ?d4" using wt3 a4 by (rule well_typed_losses)
    have run: "add_output mean1 std1 add result out = Inr ?r4"
      using s1 s2 r2 s3 r3 s4 r4 Some by (simp add: add_output_def)
    have d2k3: "?d2 ?k3 = d ?k3" by simp
    have "\<forall>k. asset_key k \<longrightarrow>
            ?d4 k = (case contrib mean1 std1 out k of
                      None \<Rightarrow> d k
                    | Some c \<Rightarrow> Some (AssetLosses (triples (d k) @ c)))"
    proof (intro allI impI)
      fix k :: "string \<times> 'lt"
      assume k: "asset_key k"
      then have "k \<noteq> ?k4" using a4 by auto
      then have "?d4 k = ?d3 k" by simp
      also have "\<dots> = (if k = ?k3 then Some (AssetLosses (triples (d ?k3) @ ?c3))
                       else ?d2 k)"
        using d2k3 by simp
      also have "\<dots> = (case contrib mean1 std1 out k of
                      None \<Rightarrow> d k
                    | Some c \<Rightarrow> Some (AssetLosses (triples (d k) @ c)))"
        using d2 [OF k] Some by (simp add: contrib_def)
      finally show "?d4 k = (case contrib mean1 std1 out k of
                      None \<Rightarrow> d k
                    | Some c \<Rightarrow> Some (AssetLosses (triples (d k) @ c)))" .
    qed
    with run wt4 show ?thesis by blast
  qed
qed

lemma contribs_snoc:
  "contribs mean1 std1 (seen @ [out]) h k =
     contribs mean1 std1 seen h k
       @ (if hid out = h
          then (case contrib mean1 std1 out k of None \<Rightarrow> [] | Some c \<Rightarrow> [c])
          else [])"
  by (simp add: contribs_def List.map_filter_def split: option.splits)

lemma triples_expected:
  "triples (expected mean1 std1 seen h k) = concat (contribs mean1 std1 seen h k)"
  by (simp add: expected_def)

lemma expected_snoc:
  "expected mean1 std1 (seen @ [out]) h k =
     (if hid out = h
      then (case contrib mean1 std1 out k of
              None \<Rightarrow> expected mean1 std1 seen h k
            | Some c \<Rightarrow> Some (AssetLosses (triples (expected mean1 std1 seen h k) @ c)))
      else expected mean1 std1 seen h k)"
  by (simp add: triples_expected contribs_snoc expected_def split: option.splits)

lemma accumulated_step:
  fixes out :: "('i, 'lt, 'mat, 'l) risk_output"
    and mean1 :: "'mat \<Rightarrow> 'm" and std1 :: "'mat \<Rightarrow> 's list" and add :: "'l \<Rightarrow> 'l \<Rightarrow> 'l"
    and result :: "nat \<rightharpoonup> (string \<times> 'lt \<rightharpoonup> ('i, 'm, 's, 'l) losses)"
  assumes acc: "accumulated mean1 std1 result seen"
    and h: "hid out \<in> dom result"
  shows "\<exists>result'. add_output mean1 std1 add result out = Inr result'
      \<and> dom result' = dom result
      \<and> accumulated mean1 std1 result' (seen @ [out])"
proof -
  from h obtain d where d: "result (hid out) = Some d" by auto
  with acc have wt: "well_typed d"
    and old: "\<forall>k. asset_key k \<longrightarrow> d k = expected mean1 std1 seen (hid out) k"
    unfolding accumulated_def by blast+
  from add_output_step [where result = result and out = out and d = d and ?mean1.0 = mean1
      and ?std1.0 = std1 and add = add, OF d wt]
  obtain d' where run: "add_output mean1 std1 add result out = Inr (result(hid out \<mapsto> d'))"
    and wt': "well_typed d'"
    and new: "\<forall>k. asset_key k \<longrightarrow>
            d' k = (case contrib mean1 std1 out k of
                      None \<Rightarrow> d k
                    | Some c \<Rightarrow> Some (AssetLosses (triples (d k) @ c)))"
    by blast
  let ?r = "result(hid out \<mapsto> d')"
  have dom: "dom ?r = dom result" using h by auto
  have "accumulated mean1 std1 ?r (seen @ [out])"
    unfolding accumulated_def
  proof (intro allI impI)
    fix h' d0
    assume r: "?r h' = Some d0"
    show "well_typed d0 \<and> (\<forall>k. asset_key k \<longrightarrow> d0 k = expected mean1 std1 (seen @ [out]) h' k)"
    proof (cases "h' = hid out")
      case True
      with r have d0: "d0 = d'" by simp
      have "d' k = expected mean1 std1 (seen @ [out]) h' k" if k: "asset_key k" for k
      proof -
        from new k have "d' k = (case contrib mean1 std1 out k of
                      None \<Rightarrow> d k
                    | Some c \<Rightarrow> Some (AssetLosses (triples (d k) @ c)))" by blast
        also from old k have "d k = expected mean1 std1 seen (hid out) k" by blast
        finally show ?thesis using True by (simp add: expected_snoc)
      qed
      with wt' d0 show ?thesis by blast
    next
      case False
      with r have "result h' = Some d0" by simp
      with acc have "well_typed d0"
        and "\<forall>k. asset_key k \<longrightarrow> d0 k = expected mean1 std1 seen h' k"
        unfolding accumulated_def by blast+
      with False show ?thesis by (simp add: expected_snoc)
    qed
  qed
  with run dom show ?thesis by blast
qed

lemma reduce_add_output:
  fixes outs :: "('i, 'lt, 'mat, 'l) risk_output list"
    and mean1 :: "'mat \<Rightarrow> 'm" and std1 :: "'mat \<Rightarrow> 's list" and add :: "'l \<Rightarrow> 'l \<Rightarrow> 'l"
    and result :: "nat \<rightharpoonup> (string \<times> 'lt \<rightharpoonup> ('i, 'm, 's, 'l) losses)"
  shows "accumulated mean1 std1 result seen \<Longrightarrow> \<forall>out\<in>set outs. hid out \<in> dom result \<Longrightarrow>
    \<exists>result'. reduce (add_output mean1 std1 add) outs result = Inr result'
      \<and> dom result' = dom result
      \<and> accumulated mean1 std1 result' (seen @ outs)"
proof (induction outs arbitrary: result seen)
  case Nil
  then show ?case by simp
next
  case (Cons out outs)
  from Cons.prems have h: "hid out \<in> dom result" by simp
  from accumulated_step [where result = result and out = out and seen = seen
      and ?mean1.0 = mean1 and ?std1.0 = std1 and add = add, OF Cons.prems(1) h]
  obtain r1 where run: "add_output mean1 std1 add result out = Inr r1"
    and dom: "dom r1 = dom result"
    and acc: "accumulated mean1 std1 r1 (seen @ [out])"
    by blast
  have "\<forall>out\<in>set outs. hid out \<in> dom r1" using Cons.prems(2) dom by simp
  from Cons.IH [OF acc this]
  obtain r' where "reduce (add_output mean1 std1 add) outs r1 = Inr r'"
    and "dom r' = dom r1"
    and "accumulated mean1 std1 r' ((seen @ [out]) @ outs)"
    by blast
  with run dom show ?case by simp
qed

lemma contribs_asset_loss:
  "contribs mean1 std1 outs h (''asset-loss'', lt) =
     map (\<lambda>out. lpa (assets out) [mean1 (loss_matrix out)] (std1 (loss_matrix out)))
       (filter (\<lambda>out. hid out = h \<and> loss_type out = lt) outs)"
  by (induction outs) (auto simp: contribs_def List.map_filter_simps contrib_def)

lemma contribs_asset_ins:
  "contribs mean1 std1 outs h (''asset-ins'', lt) =
     map (\<lambda>out. lpa (assets out) [mean1 (the (insured_loss_matrix out))]
                  (std1 (the (insured_loss_matrix out))))
       (filter (\<lambda>out. hid out = h \<and> loss_type out = lt \<and> insured_loss_matrix out \<noteq> None)
          outs)"
  by (induction outs) (auto simp: contribs_def List.map_filter_simps contrib_def)

lemma contribs_no_hid:
  "\<forall>out\<in>set outs. hid out \<noteq> h \<Longrightarrow> contribs mean1 std1 outs h k = []"
  by (induction outs) (simp_all add: contribs_def List.map_filter_simps)

lemma scenario_risk_accumulated:
  fixes gen_outputs :: "('i, 'lt, 'mat, 'l) risk_output list list"
    and mean1 :: "'mat \<Rightarrow> 'm" and std1 :: "'mat \<Rightarrow> 's list" and add :: "'l \<Rightarrow> 'l \<Rightarrow> 'l"
  assumes hids: "\<forall>out\<in>set (concat gen_outputs). hid out \<in> ordinal ` set realizations"
  shows "\<exists>result. scenario_risk mean1 std1 add gen_outputs realizations = Inr result
      \<and> dom result = ordinal ` set realizations
      \<and> accumulated mean1 std1 result (concat gen_outputs)"
proof -
  let ?r0 = "map_of (map (\<lambda>rlz. (ordinal rlz, Map.empty)) realizations)
      :: nat \<rightharpoonup> (string \<times> 'lt \<rightharpoonup> ('i, 'm, 's, 'l) losses)"
  have dom0: "dom ?r0 = ordinal ` set realizations"
    by (simp add: dom_map_of_conv_image_fst image_image)
  have empty: "d = Map.empty" if "?r0 h = Some d" for h d
    using map_of_SomeD [OF that] by auto
  have acc0: "accumulated mean1 std1 ?r0 []"
    unfolding accumulated_def
  proof (intro allI impI)
    fix h d assume "?r0 h = Some d"
    then have "d = Map.empty" by (rule empty)
    then show "well_typed d \<and> (\<forall>k. asset_key k \<longrightarrow> d k = expected mean1 std1 [] h k)"
      by (simp add: well_typed_def expected_def contribs_def List.map_filter_simps)
  qed
  have h0: "\<forall>out\<in>set (concat gen_outputs). hid out \<in> dom ?r0"
    using hids dom0 by simp
  from reduce_add_output [where result = ?r0 and seen = "[]" and outs = "concat gen_outputs"
      and ?mean1.0 = mean1 and ?std1.0 = std1 and add = add, OF acc0 h0]
  obtain result where run: "reduce (add_output mean1 std1 add) (concat gen_outputs) ?r0 = Inr result"
    and dom: "dom result = dom ?r0"
    and acc: "accumulated mean1 std1 result ([] @ concat gen_outputs)"
    by blast
  have "scenario_risk mean1 std1 add gen_outputs realizations = Inr result"
    using run by (simp add: scenario_risk_def reduce_concat)
  with dom dom0 acc show ?thesis by simp
qed

text \<open>
  C8 (amended). Let every output belong to a realization of the association. Then
  \<open>scenario_risk\<close> returns an accumulator in which the list under
  \<open>('asset-loss', loss_type)\<close> of a realization is the concatenation, in the order of the
  outputs, of the lists \<open>lpa(assets, means, stddevs)\<close> built for the outputs of that
  realization and loss type; and likewise under \<open>('asset-ins', loss_type)\<close>, over the
  outputs with insured losses. Every such output adds its list to the one already stored,
  and nothing is stored under the key when there is no such output.
\<close>

theorem scenario_risk_asset_losses_concatenated:
  fixes gen_outputs :: "('i, 'lt, 'mat, 'l) risk_output list list"
    and mean1 :: "'mat \<Rightarrow> 'm" and std1 :: "'mat \<Rightarrow> 's list" and add :: "'l \<Rightarrow> 'l \<Rightarrow> 'l"
  assumes hids: "\<forall>out\<in>set (concat gen_outputs). hid out \<in> ordinal ` set realizations"
  shows "\<exists>result. scenario_risk mean1 std1 add gen_outputs realizations = Inr result
      \<and> (\<forall>h lt.
            stored result h (''asset-loss'', lt) =
              (if \<exists>out\<in>set (concat gen_outputs). hid out = h \<and> loss_type out = lt
               then Some (AssetLosses (concat
                 (map (\<lambda>out. lpa (assets out) [mean1 (loss_matrix out)]
                                (std1 (loss_matrix out)))
                    (filter (\<lambda>out. hid out = h \<and> loss_type out = lt)
                       (concat gen_outputs)))))
               else None))
      \<and> (\<forall>h lt.
            stored result h (''asset-ins'', lt) =
              (if \<exists>out\<in>set (concat gen_outputs). hid out = h \<and> loss_type out = lt
                     \<and> insured_loss_matrix out \<noteq> None
               then Some (AssetLosses (concat
                 (map (\<lambda>out. lpa (assets out) [mean1 (the (insured_loss_matrix out))]
                                (std1 (the (insured_loss_matrix out))))
                    (filter (\<lambda>out. hid out = h \<and> loss_type out = lt
                               \<and> insured_loss_matrix out \<noteq> None)
                       (concat gen_outputs)))))
               else None))"
proof -
  let ?outs = "concat gen_outputs"
  from scenario_risk_accumulated [where gen_outputs = gen_outputs and realizations = realizations
      and ?mean1.0 = mean1 and ?std1.0 = std1 and add = add, OF hids]
  obtain result where run: "scenario_risk mean1 std1 add gen_outputs realizations = Inr result"
    and dom: "dom result = ordinal ` set realizations"
    and acc: "accumulated mean1 std1 result ?outs"
    by blast
  have at: "stored result h k = expected mean1 std1 ?outs h k" if k: "asset_key k" for h k
  proof (cases "h \<in> ordinal ` set realizations")
    case True
    with dom obtain d where d: "result h = Some d" by auto
    with acc k have "d k = expected mean1 std1 ?outs h k"
      unfolding accumulated_def by blast
    with d show ?thesis by (simp add: stored_def)
  next
    case False
    with dom have "result h = None" by auto
    then have "stored result h k = None" by (simp add: stored_def)
    moreover have "\<forall>out\<in>set ?outs. hid out \<noteq> h"
      using False hids by blast
    then have "contribs mean1 std1 ?outs h k = []"
      by (rule contribs_no_hid)
    then have "expected mean1 std1 ?outs h k = None"
      by (simp add: expected_def)
    ultimately show ?thesis by simp
  qed
  have loss: "stored result h (''asset-loss'', lt) =
              (if \<exists>out\<in>set ?outs. hid out = h \<and> loss_type out = lt
               then Some (AssetLosses (concat
                 (map (\<lambda>out. lpa (assets out) [mean1 (loss_matrix out)]
                                (std1 (loss_matrix out)))
                    (filter (\<lambda>out. hid out = h \<and> loss_type out = lt) ?outs))))
               else None)" for h lt
  proof -
    have "stored result h (''asset-loss'', lt) = expected mean1 std1 ?outs h (''asset-loss'', lt)"
      by (rule at) (simp add: asset_key_def)
    also have "\<dots> =
              (if \<exists>out\<in>set ?outs. hid out = h \<and> loss_type out = lt
               then Some (AssetLosses (concat
                 (map (\<lambda>out. lpa (assets out) [mean1 (loss_matrix out)]
                                (std1 (loss_matrix out)))
                    (filter (\<lambda>out. hid out = h \<and> loss_type out = lt) ?outs))))
               else None)"
      unfolding expected_def contribs_asset_loss
      by (simp add: filter_empty_conv)
    finally show ?thesis .
  qed
  have ins: "stored result h (''asset-ins'', lt) =
              (if \<exists>out\<in>set ?outs. hid out = h \<and> loss_type out = lt
                     \<and> insured_loss_matrix out \<noteq> None
               then Some (AssetLosses (concat
                 (map (\<lambda>out. lpa (assets out) [mean1 (the (insured_loss_matrix out))]
                                (std1 (the (insured_loss_matrix out))))
                    (filter (\<lambda>out. hid out = h \<and> loss_type out = lt
                               \<and> insured_loss_matrix out \<noteq> None) ?outs))))
               else None)" for h lt
  proof -
    have "stored result h (''asset-ins'', lt) = expected mean1 std1 ?outs h (''asset-ins'', lt)"
      by (rule at) (simp add: asset_key_def)
    also have "\<dots> =
              (if \<exists>out\<in>set ?outs. hid out = h \<and> loss_type out = lt
                     \<and> insured_loss_matrix out \<noteq> None
               then Some (AssetLosses (concat
                 (map (\<lambda>out. lpa (assets out) [mean1 (the (insured_loss_matrix out))]
                                (std1 (the (insured_loss_matrix out))))
                    (filter (\<lambda>out. hid out = h \<and> loss_type out = lt
                               \<and> insured_loss_matrix out \<noteq> None) ?outs))))
               else None)"
      unfolding expected_def contribs_asset_ins
      by (simp add: filter_empty_conv)
    finally show ?thesis .
  qed
  from run loss ins show ?thesis by blast
qed

theorem scenario_risk_asset_losses_concatenated_witness:
  "\<exists>result.
     scenario_risk (map (\<lambda>row. sum_list row / real (length row))) (map (\<lambda>row. 0 :: real))
       (map2 (+))
       [[\<lparr>hid = 0, loss_type = ''structural'', assets = [\<lparr>id' = ''a1''\<rparr>],
          loss_matrix = [[2, 2 :: real]], insured_loss_matrix = Some [[1, 1]],
          aggregate_losses = [2, 2 :: real], insured_losses = [1, 1]\<rparr>,
         \<lparr>hid = 0, loss_type = ''structural'', assets = [],
          loss_matrix = [], insured_loss_matrix = None,
          aggregate_losses = [0, 0], insured_losses = []\<rparr>],
        [\<lparr>hid = 0, loss_type = ''structural'', assets = [\<lparr>id' = ''a2''\<rparr>],
          loss_matrix = [[6, 6]], insured_loss_matrix = None,
          aggregate_losses = [6, 6], insured_losses = []\<rparr>]]
       [\<lparr>ordinal = 0, weight = 1\<rparr>] = Inr result
     \<and> stored result 0 (''asset-loss'', ''structural'')
         = Some (AssetLosses [(''a1'', [2], 0), (''a2'', [6], 0)])
     \<and> stored result 0 (''asset-ins'', ''structural'')
         = Some (AssetLosses [(''a1'', [1], 0)])
     \<and> stored result 0 (''asset-loss'', ''contents'') = None"
proof -
  let ?mean1 = "map (\<lambda>row :: real list. sum_list row / real (length row))"
  let ?std1 = "map (\<lambda>row :: real list. 0 :: real)"
  let ?add = "map2 (+) :: real list \<Rightarrow> real list \<Rightarrow> real list"
  let ?gen = "[[\<lparr>hid = 0, loss_type = ''structural'', assets = [\<lparr>id' = ''a1''\<rparr>],
          loss_matrix = [[2, 2 :: real]], insured_loss_matrix = Some [[1, 1]],
          aggregate_losses = [2, 2 :: real], insured_losses = [1, 1]\<rparr>,
         \<lparr>hid = 0, loss_type = ''structural'', assets = [],
          loss_matrix = [], insured_loss_matrix = None,
          aggregate_losses = [0, 0], insured_losses = []\<rparr>],
        [\<lparr>hid = 0, loss_type = ''structural'', assets = [\<lparr>id' = ''a2''\<rparr>],
          loss_matrix = [[6, 6]], insured_loss_matrix = None,
          aggregate_losses = [6, 6], insured_losses = []\<rparr>]]"
  let ?rlzs = "[\<lparr>ordinal = 0, weight = 1\<rparr>]"
  have hids: "\<forall>out\<in>set (concat ?gen). hid out \<in> ordinal ` set ?rlzs" by simp
  from scenario_risk_asset_losses_concatenated
    [where gen_outputs = ?gen and realizations = ?rlzs and ?mean1.0 = ?mean1
       and ?std1.0 = ?std1 and add = ?add, OF hids]
  obtain result where run: "scenario_risk ?mean1 ?std1 ?add ?gen ?rlzs = Inr result"
    and loss: "\<And>h lt.
            stored result h (''asset-loss'', lt) =
              (if \<exists>out\<in>set (concat ?gen). hid out = h \<and> loss_type out = lt
               then Some (AssetLosses (concat
                 (map (\<lambda>out. lpa (assets out) [?mean1 (loss_matrix out)]
                                (?std1 (loss_matrix out)))
                    (filter (\<lambda>out. hid out = h \<and> loss_type out = lt) (concat ?gen)))))
               else None)"
    and ins: "\<And>h lt.
            stored result h (''asset-ins'', lt) =
              (if \<exists>out\<in>set (concat ?gen). hid out = h \<and> loss_type out = lt
                     \<and> insured_loss_matrix out \<noteq> None
               then Some (AssetLosses (concat
                 (map (\<lambda>out. lpa (assets out) [?mean1 (the (insured_loss_matrix out))]
                                (?std1 (the (insured_loss_matrix out))))
                    (filter (\<lambda>out. hid out = h \<and> loss_type out = lt
                               \<and> insured_loss_matrix out \<noteq> None) (concat ?gen)))))
               else None)"
    by blast
  have 1: "stored result 0 (''asset-loss'', ''structural'')
      = Some (AssetLosses [(''a1'', [2], 0), (''a2'', [6], 0)])"
    by (simp add: loss lpa_def)
  have 2: "stored result 0 (''asset-ins'', ''structural'')
      = Some (AssetLosses [(''a1'', [1], 0)])"
    by (simp add: ins lpa_def)
  have 3: "stored result 0 (''asset-loss'', ''contents'') = None"
    by (simp add: loss)
  from run 1 2 3 show ?thesis by blast
qed

theorem scenario_risk_two_outputs_counterexample:
  "(case scenario_risk (map (\<lambda>row. sum_list row / real (length row))) (map (\<lambda>row. 0 :: real))
           (map2 (+))
           [[\<lparr>hid = 0, loss_type = ''structural'',
              assets = [\<lparr>id' = ''a1''\<rparr>, \<lparr>id' = ''a2''\<rparr>],
              loss_matrix = [[2, 2], [4, 4 :: real]], insured_loss_matrix = None,
              aggregate_losses = [6, 6 :: real], insured_losses = []\<rparr>],
            [\<lparr>hid = 0, loss_type = ''structural'',
              assets = [\<lparr>id' = ''a3''\<rparr>],
              loss_matrix = [[6, 6]], insured_loss_matrix = None,
              aggregate_losses = [6, 6], insured_losses = []\<rparr>]]
           [\<lparr>ordinal = 0, weight = 1\<rparr>] of
      Inl e \<Rightarrow> None
    | Inr result \<Rightarrow> stored result 0 (''asset-loss'', ''structural''))
   = Some (AssetLosses [(''a1'', [2, 4], 0), (''a3'', [6], 0)])"
  by (simp add: scenario_risk_def add_output_def iadd_at_def lpa_def stored_def)


end
